(* ===== verification/Prelude.thy ===== *)
theory Prelude
  imports Complex_Main "HOL-Library.Product_Lexorder" "HOL-Library.Multiset"
begin

text \<open>
  Shared vocabulary of the development: Python strings as lists of Unicode code
  points, the character classes that the regular expressions of \<^verbatim>\<open>src/main.py\<close>
  use (whitespace, ASCII letters, digits, word characters), and the \<^verbatim>\<open>str\<close> methods the
  program calls (\<^verbatim>\<open>strip\<close>, \<^verbatim>\<open>lower\<close>, \<^verbatim>\<open>split\<close>, \<^verbatim>\<open>join\<close>, \<^verbatim>\<open>in\<close>).
  Whitespace is Python's \<^verbatim>\<open>str.isspace\<close> over all of Unicode; letters, digits,
  word characters and case mapping are modelled on ASCII (a non-ASCII code point
  is caseless, no letter, no digit and no word character).
  The generic lemmas on these operations are collected in \<open>text_simps\<close>.
\<close>

named_theorems text_simps "facts on the modelled str operations"
named_theorems model_defs "the defining equations that evaluate the model on concrete inputs"

section \<open>Strings as code points\<close>

type_synonym uchar = nat
type_synonym ustring = "uchar list"

definition ustr :: "string \<Rightarrow> ustring" where
  "ustr s = map of_char s"

definition sp :: uchar where
  "sp = 32"

text \<open>Python's \<^verbatim>\<open>str.isspace\<close>, which is also the whitespace class of \<^verbatim>\<open>re\<close> on str.\<close>

definition is_space :: "uchar \<Rightarrow> bool" where
  "is_space c \<longleftrightarrow>
     (9 \<le> c \<and> c \<le> 13) \<or> (28 \<le> c \<and> c \<le> 32) \<or> c = 133 \<or> c = 160 \<or> c = 5760 \<or>
     (8192 \<le> c \<and> c \<le> 8202) \<or> c = 8232 \<or> c = 8233 \<or> c = 8239 \<or> c = 8287 \<or> c = 12288"

definition is_upper :: "uchar \<Rightarrow> bool" where
  "is_upper c \<longleftrightarrow> 65 \<le> c \<and> c \<le> 90"

definition is_lower :: "uchar \<Rightarrow> bool" where
  "is_lower c \<longleftrightarrow> 97 \<le> c \<and> c \<le> 122"

definition is_letter :: "uchar \<Rightarrow> bool" where
  "is_letter c \<longleftrightarrow> is_upper c \<or> is_lower c"

definition is_digit :: "uchar \<Rightarrow> bool" where
  "is_digit c \<longleftrightarrow> 48 \<le> c \<and> c \<le> 57"

definition is_word :: "uchar \<Rightarrow> bool" where
  "is_word c \<longleftrightarrow> is_letter c \<or> is_digit c \<or> c = 95"

definition lower_char :: "uchar \<Rightarrow> uchar" where
  "lower_char c = (if is_upper c then c + 32 else c)"

definition lower :: "ustring \<Rightarrow> ustring" where
  "lower s = map lower_char s"

section \<open>str methods\<close>

text \<open>\<^verbatim>\<open>s.strip(chars)\<close>: drop the characters satisfying \<open>P\<close> from both ends.\<close>

definition strip_by :: "(uchar \<Rightarrow> bool) \<Rightarrow> ustring \<Rightarrow> ustring" where
  "strip_by P s = rev (dropWhile P (rev (dropWhile P s)))"

definition strip :: "ustring \<Rightarrow> ustring" where
  "strip s = strip_by is_space s"

text \<open>\<^verbatim>\<open>sub in s\<close> on strings: \<open>sub\<close> occurs contiguously in \<open>s\<close>.\<close>

fun has_infix :: "ustring \<Rightarrow> ustring \<Rightarrow> bool" where
  "has_infix p [] = (p = [])"
| "has_infix p (c # cs) = (take (length p) (c # cs) = p \<or> has_infix p cs)"

text \<open>\<^verbatim>\<open>sep.join(xs)\<close>.\<close>

fun py_join :: "ustring \<Rightarrow> ustring list \<Rightarrow> ustring" where
  "py_join sep [] = []"
| "py_join sep [x] = x"
| "py_join sep (x # y # zs) = x @ sep @ py_join sep (y # zs)"

text \<open>\<^verbatim>\<open>s.split()\<close> with no argument: the maximal runs of non-whitespace.\<close>

function split_ws :: "ustring \<Rightarrow> ustring list" where
  "split_ws s =
     (let s' = dropWhile is_space s in
      if s' = [] then []
      else takeWhile (\<lambda>c. \<not> is_space c) s' # split_ws (dropWhile (\<lambda>c. \<not> is_space c) s'))"
  by pat_completeness auto

termination split_ws
proof (relation "measure length")
  fix s s' :: ustring
  assume s': "s' = dropWhile is_space s" and ne: "s' \<noteq> []"
  then obtain c r where c: "s' = c # r" and "\<not> is_space c"
    by (metis hd_dropWhile list.exhaust list.sel(1))
  then have "length (dropWhile (\<lambda>c. \<not> is_space c) s') \<le> length r"
    by (simp add: length_dropWhile_le)
  moreover have "length s' \<le> length s"
    unfolding s' by (rule length_dropWhile_le)
  ultimately show "(dropWhile (\<lambda>c. \<not> is_space c) s', s) \<in> measure length"
    using c by simp
qed simp

declare split_ws.simps [simp del]

section \<open>Exceptions and partial builtins\<close>

text \<open>
  The exceptions the program can raise, as values: pdfplumber's failure to read a
  document, \<^verbatim>\<open>ZeroDivisionError\<close> of a division, \<^verbatim>\<open>ValueError\<close> of
  \<^verbatim>\<open>max()\<close> on an empty sequence and \<^verbatim>\<open>IndexError\<close> of \<^verbatim>\<open>np.percentile\<close> on an
  empty array. \<open>py_max\<close> is the builtin \<^verbatim>\<open>max\<close>: it has no value on the empty list.
\<close>

datatype py_error = ExtractionFailure ustring | ZeroDivisionError | ValueError | IndexError

fun py_max :: "real list \<Rightarrow> real option" where
  "py_max [] = None"
| "py_max (x # xs) = Some (fold max xs x)"

declare ustr_def [model_defs] sp_def [model_defs] is_space_def [model_defs] is_upper_def [model_defs]
  is_lower_def [model_defs] is_letter_def [model_defs] is_digit_def [model_defs] is_word_def [model_defs]
  lower_char_def [model_defs] lower_def [model_defs] strip_by_def [model_defs] strip_def [model_defs]
  split_ws.simps [model_defs] py_max.simps [model_defs]

section \<open>Generic lemmas\<close>

lemma sort_key_Nil_iff [simp]: "sort_key f xs = [] \<longleftrightarrow> xs = []"
  by (metis length_0_conv length_sort)

lemma ustr_simps [text_simps]:
  "ustr [] = []" "ustr (c # s) = of_char c # ustr s" "ustr (s @ t) = ustr s @ ustr t"
  by (simp_all add: ustr_def)

lemma sp_is_space [text_simps]: "is_space sp" and sp_not_letter [text_simps]: "\<not> is_letter sp"
  by (simp_all add: sp_def is_space_def is_letter_def is_upper_def is_lower_def)

lemma letter_not_space [text_simps]: "is_letter c \<Longrightarrow> \<not> is_space c"
  by (auto simp: is_letter_def is_upper_def is_lower_def is_space_def)

lemma dropWhile_hd_not [text_simps]:
  "dropWhile P xs = y # ys \<Longrightarrow> \<not> P y"
  by (metis dropWhile_eq_Cons_conv)

lemma strip_by_split [text_simps]:
  "\<exists>pre post. s = pre @ strip_by P s @ post"
proof -
  let ?d = "dropWhile P s"
  have "s = takeWhile P s @ ?d" by simp
  moreover have "?d = rev (rev ?d)" by simp
  moreover have "rev ?d = takeWhile P (rev ?d) @ dropWhile P (rev ?d)" by simp
  ultimately have "s = takeWhile P s @ rev (dropWhile P (rev ?d)) @ rev (takeWhile P (rev ?d))"
    by (metis rev_append)
  then show ?thesis unfolding strip_by_def by blast
qed

lemma strip_by_hd [text_simps]:
  assumes r: "strip_by P s = c # cs"
  shows "\<not> P c"
proof -
  let ?d = "dropWhile P s"
  let ?e = "dropWhile P (rev ?d)"
  from r have e: "?e \<noteq> []" and c: "c = last ?e"
    by (auto simp: strip_by_def hd_rev dest: arg_cong [where f = "\<lambda>xs. hd (rev xs)"])
  from e have d: "?d \<noteq> []" by (metis Nil_is_rev_conv dropWhile.simps(1))
  have "rev ?d = takeWhile P (rev ?d) @ ?e" by simp
  then have "last ?e = last (rev ?d)" using e by (metis last_appendR)
  also have "\<dots> = hd ?d" using d by (simp add: last_rev)
  finally show ?thesis using c d by (simp add: hd_dropWhile)
qed

lemma strip_by_last [text_simps]:
  assumes "strip_by P s \<noteq> []"
  shows "\<not> P (last (strip_by P s))"
proof -
  let ?e = "dropWhile P (rev (dropWhile P s))"
  from assms have "?e \<noteq> []" by (simp add: strip_by_def)
  then have "\<not> P (hd ?e)" by (rule hd_dropWhile)
  then show ?thesis by (simp add: strip_by_def last_rev)
qed

lemma strip_by_idem [text_simps]:
  assumes "\<And>c cs. s = c # cs \<Longrightarrow> \<not> P c" and "s \<noteq> [] \<Longrightarrow> \<not> P (last s)"
  shows "strip_by P s = s"
proof (cases s rule: rev_cases)
  case Nil
  then show ?thesis by (simp add: strip_by_def)
next
  case (snoc ys y)
  with assms have "dropWhile P s = s" "\<not> P y" by (cases ys; auto)+
  with snoc show ?thesis by (simp add: strip_by_def)
qed

lemma sort_key_mset_distinct:
  assumes m: "mset xs = mset ys" and d: "distinct (map f xs)"
  shows "sort_key f xs = sort_key f ys"
proof -
  let ?a = "sort_key f xs" and ?b = "sort_key f ys"
  have ma: "mset (map f ?a) = mset (map f xs)" and mb: "mset (map f ?b) = mset (map f xs)"
    using m by (simp_all add: mset_map)
  have "distinct (map f ?a)" "distinct (map f ?b)"
    using d ma mb by (metis mset_eq_imp_distinct_iff)+
  moreover have "sorted (map f ?a)" "sorted (map f ?b)" by simp_all
  moreover have "set (map f ?a) = set (map f ?b)" using ma mb by (metis set_mset_mset)
  ultimately have "map f ?a = map f ?b" by (metis sorted_distinct_set_unique)
  moreover have "inj_on f (set ?a \<union> set ?b)"
    using d m by (simp add: distinct_map flip: set_mset_mset)
  ultimately show ?thesis by (metis inj_on_map_eq_map)
qed
lemma fold_max_Max: "fold max xs x = Max (set (x # xs))"
  by (rule Max.set_eq_fold [symmetric])

lemma py_max_Max: "xs \<noteq> [] \<Longrightarrow> py_max xs = Some (Max (set xs))"
  by (cases xs) (simp_all add: fold_max_Max)

lemma strip_by_pad [text_simps]:
  assumes "\<forall>x \<in> set xs. P x" "\<forall>y \<in> set ys. P y" "t \<noteq> []" "\<not> P (hd t)" "\<not> P (last t)"
  shows "strip_by P (xs @ t @ ys) = t"
proof -
  have "dropWhile P (xs @ t @ ys) = t @ ys"
    using assms(1,3,4) by (cases t) (simp_all add: dropWhile_append)
  moreover have "dropWhile P (rev (t @ ys)) = rev t"
    using assms(2,3,5) by (cases t rule: rev_cases) (simp_all add: dropWhile_append)
  ultimately show ?thesis by (simp add: strip_by_def)
qed

lemma has_infix_set [text_simps]: "has_infix p s \<Longrightarrow> set p \<subseteq> set s"
proof (induction p s rule: has_infix.induct)
  case (2 p c cs)
  then show ?case by (metis has_infix.simps(2) set_subset_Cons set_take_subset subset_trans)
qed simp

end
