(* ===== verification/Normalizer.thy ===== *)
theory Normalizer
  imports Prelude
begin

text \<open>
  The Line Normalizer, \<^verbatim>\<open>dedupe_chars\<close> and \<^verbatim>\<open>clean_line\<close> of
  \<^verbatim>\<open>src/main.py\<close> (lines 12--18). Each regular-expression substitution is a
  left-to-right scan: \<open>dedupe_chars\<close> replaces every run of three or more equal
  ASCII letters by one copy (the pattern \<^verbatim>\<open>([A-Za-z])\1{2,}\<close>, greedy, scanned
  from the left), \<open>collapse_ws\<close> replaces every whitespace run by one space
  (\<^verbatim>\<open>\s+\<close>), and \<open>clean_line\<close> strips the result. The lemmas characterise one
  run of each substitution and prove that \<open>clean_line\<close> is idempotent through
  two shape predicates, \<open>stutter_free\<close> and \<open>ws_normal\<close>, that its output has and
  on which every pass is the identity.
\<close>

section \<open>Operations\<close>

function dedupe_chars :: "ustring \<Rightarrow> ustring" where
  "dedupe_chars [] = []"
| "dedupe_chars (c # cs) =
     (if is_letter c \<and> 2 \<le> length (takeWhile (\<lambda>d. d = c) cs)
      then c # dedupe_chars (dropWhile (\<lambda>d. d = c) cs)
      else c # dedupe_chars cs)"
  by pat_completeness auto
termination
  by (relation "measure length") (auto simp: le_imp_less_Suc length_dropWhile_le)

function collapse_ws :: "ustring \<Rightarrow> ustring" where
  "collapse_ws [] = []"
| "collapse_ws (c # cs) =
     (if is_space c then sp # collapse_ws (dropWhile is_space cs)
      else c # collapse_ws cs)"
  by pat_completeness auto
termination
  by (relation "measure length") (auto simp: le_imp_less_Suc length_dropWhile_le)

definition clean_line :: "ustring \<Rightarrow> ustring" where
  "clean_line text = strip (collapse_ws (dedupe_chars text))"

section \<open>Shape predicates of normalised text\<close>

fun stutter_free :: "ustring \<Rightarrow> bool" where
  "stutter_free (a # b # c # rest) = (\<not> (is_letter a \<and> b = a \<and> c = a) \<and> stutter_free (b # c # rest))"
| "stutter_free _ = True"

fun ws_normal :: "ustring \<Rightarrow> bool" where
  "ws_normal [] = True"
| "ws_normal [c] = (is_space c \<longrightarrow> c = sp)"
| "ws_normal (a # b # rest) = ((is_space a \<longrightarrow> a = sp \<and> \<not> is_space b) \<and> ws_normal (b # rest))"

declare clean_line_def [model_defs]

section \<open>Each pass on its own\<close>

lemma stutter_free_Cons:
  "stutter_free (a # xs) \<longleftrightarrow> stutter_free xs \<and> \<not> (is_letter a \<and> take 2 xs = [a, a])"
  by (cases xs rule: stutter_free.cases) auto

lemma ws_normal_Cons:
  "ws_normal (a # xs) \<longleftrightarrow>
     ws_normal xs \<and> (is_space a \<longrightarrow> a = sp \<and> (xs = [] \<or> \<not> is_space (hd xs)))"
  by (cases xs) auto

lemma stutter_free_append:
  "stutter_free (xs @ ys) \<Longrightarrow> stutter_free xs \<and> stutter_free ys"
proof (induction xs)
  case Nil
  then show ?case by simp
next
  case (Cons a xs)
  then have "stutter_free (xs @ ys)" and a: "\<not> (is_letter a \<and> take 2 (xs @ ys) = [a, a])"
    by (simp_all add: stutter_free_Cons)
  moreover have "take 2 xs = [a, a] \<Longrightarrow> take 2 (xs @ ys) = [a, a]"
    by (cases xs rule: stutter_free.cases) auto
  ultimately show ?case using Cons.IH by (auto simp: stutter_free_Cons)
qed

lemma ws_normal_append:
  "ws_normal (xs @ ys) \<Longrightarrow> ws_normal xs \<and> ws_normal ys"
proof (induction xs)
  case Nil
  then show ?case by simp
next
  case (Cons a xs)
  then show ?case by (cases xs) (auto simp: ws_normal_Cons)
qed

lemma dedupe_chars_Cons_hd: "\<exists>r. dedupe_chars (c # cs) = c # r"
  by simp

lemma dedupe_chars_Nil_iff: "dedupe_chars s = [] \<longleftrightarrow> s = []"
  by (cases s) simp_all

lemma dedupe_chars_take2:
  "take 2 (dedupe_chars s) = [c, c] \<Longrightarrow> take 2 s = [c, c]"
proof (cases s)
  case Nil
  then show "take 2 (dedupe_chars s) = [c, c] \<Longrightarrow> ?thesis" by simp
next
  case (Cons a s')
  assume t: "take 2 (dedupe_chars s) = [c, c]"
  show ?thesis
  proof (cases "is_letter a \<and> 2 \<le> length (takeWhile (\<lambda>d. d = a) s')")
    case True
    with Cons have "dedupe_chars s = a # dedupe_chars (dropWhile (\<lambda>d. d = a) s')" by simp
    with t have "take 2 (a # dedupe_chars (dropWhile (\<lambda>d. d = a) s')) = [c, c]" by (simp only:)
    show ?thesis
    proof (cases "dropWhile (\<lambda>d. d = a) s'")
      case Nil
      with \<open>take 2 (a # dedupe_chars (dropWhile (\<lambda>d. d = a) s')) = [c, c]\<close>
      show ?thesis by simp
    next
      case (Cons d r)
      then have "d \<noteq> a" by (rule dropWhile_hd_not)
      moreover obtain r' where "dedupe_chars (d # r) = d # r'"
        using dedupe_chars_Cons_hd by blast
      ultimately show ?thesis
        using Cons \<open>take 2 (a # dedupe_chars (dropWhile (\<lambda>d. d = a) s')) = [c, c]\<close> by simp
    qed
  next
    case False
    from Cons False have "dedupe_chars s = a # dedupe_chars s'" by auto
    with t have "take 2 (a # dedupe_chars s') = [c, c]" by (simp only:)
    then show ?thesis using Cons
      by (cases s') (auto split: if_splits)
  qed
qed

lemma dedupe_chars_keep:
  "\<not> (is_letter c \<and> 2 \<le> length (takeWhile (\<lambda>d. d = c) cs)) \<Longrightarrow>
   dedupe_chars (c # cs) = c # dedupe_chars cs"
  by (simp only: dedupe_chars.simps if_False)

lemma stutter_free_dedupe_chars: "stutter_free (dedupe_chars s)"
proof (induction s rule: dedupe_chars.induct)
  case 1
  then show ?case by simp
next
  case (2 c cs)
  show ?case
  proof (cases "is_letter c \<and> 2 \<le> length (takeWhile (\<lambda>d. d = c) cs)")
    case True
    let ?r = "dropWhile (\<lambda>d. d = c) cs"
    have "take 2 (dedupe_chars ?r) \<noteq> [c, c]"
    proof
      assume "take 2 (dedupe_chars ?r) = [c, c]"
      then have "take 2 ?r = [c, c]" by (rule dedupe_chars_take2)
      then show False by (cases ?r) (auto dest: dropWhile_hd_not)
    qed
    with True "2.IH"(1) show ?thesis by (simp add: stutter_free_Cons)
  next
    case False
    have "take 2 (dedupe_chars cs) = [c, c] \<Longrightarrow> 2 \<le> length (takeWhile (\<lambda>d. d = c) cs)"
      by (drule dedupe_chars_take2) (cases cs rule: stutter_free.cases; auto)
    with False "2.IH"(2) show ?thesis by (auto simp: stutter_free_Cons)
  qed
qed

lemma dedupe_chars_stutter_free: "stutter_free s \<Longrightarrow> dedupe_chars s = s"
proof (induction s rule: dedupe_chars.induct)
  case 1
  then show ?case by simp
next
  case (2 c cs)
  have keep: "\<not> (is_letter c \<and> 2 \<le> length (takeWhile (\<lambda>d. d = c) cs))"
  proof
    assume "is_letter c \<and> 2 \<le> length (takeWhile (\<lambda>d. d = c) cs)"
    then have "is_letter c" and "take 2 cs = [c, c]"
      by (cases cs rule: stutter_free.cases; auto split: if_splits)+
    with "2.prems" show False by (simp add: stutter_free_Cons)
  qed
  then have "dedupe_chars (c # cs) = c # dedupe_chars cs" by (rule dedupe_chars_keep)
  with keep "2.IH"(2) "2.prems" show ?case by (simp add: stutter_free_Cons)
qed

lemma collapse_ws_Cons_hd: "\<exists>r. collapse_ws (c # cs) = (if is_space c then sp else c) # r"
  by simp

lemma collapse_ws_take2:
  assumes "is_letter c" "take 2 (collapse_ws s) = [c, c]"
  shows "take 2 s = [c, c]"
proof (cases s)
  case Nil
  with assms show ?thesis by simp
next
  case (Cons a s')
  from assms have "\<not> is_space c" by (simp add: letter_not_space)
  with assms Cons have a: "a = c" "\<not> is_space a"
    by (auto simp: sp_not_letter sp_is_space split: if_splits)
  with Cons have "collapse_ws s = a # collapse_ws s'" by simp
  with assms(2) have "take 1 (collapse_ws s') = [c]" by (simp add: numeral_2_eq_2)
  with a \<open>\<not> is_space c\<close> Cons show ?thesis
    by (cases s') (auto simp: sp_is_space split: if_splits)
qed

lemma collapse_ws_stutter_free: "stutter_free s \<Longrightarrow> stutter_free (collapse_ws s)"
proof (induction s rule: collapse_ws.induct)
  case 1
  then show ?case by simp
next
  case (2 c cs)
  show ?case
  proof (cases "is_space c")
    case True
    have "stutter_free (dropWhile is_space cs)"
      using "2.prems" stutter_free_append [of "c # takeWhile is_space cs"] by simp
    with True "2.IH"(1) show ?thesis by (simp add: stutter_free_Cons sp_not_letter)
  next
    case False
    from "2.prems" have "stutter_free cs" by (simp add: stutter_free_Cons)
    with False "2.IH"(2) "2.prems" show ?thesis
      by (auto simp: stutter_free_Cons dest: collapse_ws_take2)
  qed
qed

lemma collapse_ws_hd:
  "xs = [] \<or> \<not> is_space (hd xs) \<Longrightarrow> collapse_ws xs = [] \<or> \<not> is_space (hd (collapse_ws xs))"
  by (cases xs) auto

lemma ws_normal_collapse_ws: "ws_normal (collapse_ws s)"
proof (induction s rule: collapse_ws.induct)
  case 1
  then show ?case by simp
next
  case (2 c cs)
  show ?case
  proof (cases "is_space c")
    case True
    let ?r = "dropWhile is_space cs"
    have "?r = [] \<or> \<not> is_space (hd ?r)"
      using hd_dropWhile by blast
    then have "collapse_ws ?r = [] \<or> \<not> is_space (hd (collapse_ws ?r))"
      by (rule collapse_ws_hd)
    with True "2.IH"(1) show ?thesis by (auto simp: ws_normal_Cons)
  next
    case False
    with "2.IH"(2) show ?thesis by (simp add: ws_normal_Cons)
  qed
qed

lemma collapse_ws_ws_normal: "ws_normal s \<Longrightarrow> collapse_ws s = s"
proof (induction s rule: collapse_ws.induct)
  case 1
  then show ?case by simp
next
  case (2 c cs)
  then show ?case by (cases cs) (auto simp: ws_normal_Cons)
qed

section \<open>Runs, shapes and idempotence\<close>

lemma takeWhile_replicate_stop:
  "rest = [] \<or> hd rest \<noteq> c \<Longrightarrow> takeWhile (\<lambda>d. d = c) (replicate k c @ rest) = replicate k c"
  by (induction k) (cases rest; auto)+

lemma dropWhile_replicate_stop:
  "rest = [] \<or> hd rest \<noteq> c \<Longrightarrow> dropWhile (\<lambda>d. d = c) (replicate k c @ rest) = rest"
  by (induction k) (cases rest; auto)+

text \<open>C23: A run of k copies of one character, not followed by that character, is collapsed by dedupe_chars to a single copy when the character is an ASCII letter and k is at least 3, and is kept unchanged otherwise (runs of length 1 and 2, digits, punctuation).\<close>

lemma dedupe_chars_run:
  assumes "0 < k" and stop: "rest = [] \<or> hd rest \<noteq> c"
  shows "dedupe_chars (replicate k c @ rest) =
           (if is_letter c \<and> 3 \<le> k then [c] else replicate k c) @ dedupe_chars rest"
proof -
  have "dedupe_chars (replicate (Suc k') c @ rest) =
          (if is_letter c \<and> 3 \<le> Suc k' then [c] else replicate (Suc k') c) @ dedupe_chars rest"
    for k'
  proof (induction k')
    case 0
    from stop have "takeWhile (\<lambda>d. d = c) rest = []" by (cases rest) auto
    then show ?case by simp
  next
    case (Suc k')
    have tw: "length (takeWhile (\<lambda>d. d = c) (replicate (Suc k') c @ rest)) = Suc k'"
      using takeWhile_replicate_stop [OF stop] by simp
    show ?case
    proof (cases "is_letter c \<and> 2 \<le> Suc k'")
      case True
      with tw show ?thesis by (simp add: dropWhile_replicate_stop [OF stop])
    next
      case False
      then have "dedupe_chars (c # replicate (Suc k') c @ rest) =
                   c # dedupe_chars (replicate (Suc k') c @ rest)"
        using tw by (intro dedupe_chars_keep) simp
      with False Suc.IH show ?thesis by auto
    qed
  qed
  with \<open>0 < k\<close> show ?thesis by (cases k) simp_all
qed

lemma dedupe_chars_run_witness:
  "dedupe_chars (ustr ''SSSales'') = ustr ''Sales''"
proof -
  have "ustr ''SSSales'' = replicate 3 83 @ ustr ''ales''" by (simp add: ustr_def numeral_3_eq_3)
  moreover have "is_letter 83" by (simp add: is_letter_def is_upper_def)
  ultimately show ?thesis
    using dedupe_chars_run [of 3 "ustr ''ales''" 83]
    by (simp add: ustr_def is_letter_def is_upper_def is_lower_def)
qed

text \<open>C24: dedupe_chars leaves every string without ASCII letters unchanged: runs of digits or punctuation of any length survive.\<close>

lemma dedupe_chars_no_letters: "\<forall>c \<in> set s. \<not> is_letter c \<Longrightarrow> dedupe_chars s = s"
  by (induction s rule: dedupe_chars.induct) auto

lemma dedupe_chars_no_letters_witness: "dedupe_chars (ustr ''11111'') = ustr ''11111''"
  using dedupe_chars_no_letters [of "ustr ''11111''"]
  by (simp add: ustr_def is_letter_def is_upper_def is_lower_def)

text \<open>C25: collapse_ws turns any non-empty run of whitespace characters (spaces, tabs, newlines and the other str.isspace characters), ended by a non-space or the end of the text, into exactly one space.\<close>

lemma collapse_ws_run:
  assumes "w \<noteq> []" "\<forall>c \<in> set w. is_space c" "rest = [] \<or> \<not> is_space (hd rest)"
  shows "collapse_ws (w @ rest) = sp # collapse_ws rest"
proof -
  obtain c w' where w: "w = c # w'" using assms(1) by (cases w) auto
  from assms(2,3) have "dropWhile is_space (w' @ rest) = rest"
    unfolding w by (cases rest) auto
  with assms(2) w show ?thesis by simp
qed

lemma collapse_ws_run_witness:
  "collapse_ws (ustr ''\<newline> \<newline>x'') = ustr '' x''"
  using collapse_ws_run [of "ustr ''\<newline> \<newline>''" "ustr ''x''"]
  by (simp add: ustr_def is_space_def sp_def)

lemma clean_line_shape:
  "stutter_free (clean_line s) \<and> ws_normal (clean_line s)"
proof -
  let ?x = "collapse_ws (dedupe_chars s)"
  obtain pre post where x: "?x = pre @ clean_line s @ post"
    using strip_by_split [of ?x is_space] by (auto simp: clean_line_def strip_def)
  have "stutter_free ?x"
    by (rule collapse_ws_stutter_free [OF stutter_free_dedupe_chars])
  moreover have "ws_normal ?x" by (rule ws_normal_collapse_ws)
  ultimately show ?thesis
    unfolding x by (auto dest: stutter_free_append ws_normal_append)
qed

lemma clean_line_fixpoint:
  assumes "stutter_free t" "ws_normal t" "strip t = t"
  shows "clean_line t = t"
  using assms by (simp add: clean_line_def dedupe_chars_stutter_free collapse_ws_ws_normal)

lemma strip_collapse_normal:
  assumes "stutter_free x"
  shows "stutter_free (strip (collapse_ws x)) \<and> ws_normal (strip (collapse_ws x)) \<and>
         strip (strip (collapse_ws x)) = strip (collapse_ws x)"
proof -
  let ?c = "collapse_ws x"
  obtain pre post where c: "?c = pre @ strip ?c @ post"
    using strip_by_split [of ?c is_space] by (auto simp: strip_def)
  have "stutter_free ?c" using assms by (rule collapse_ws_stutter_free)
  moreover have "ws_normal ?c" by (rule ws_normal_collapse_ws)
  ultimately have "stutter_free (strip ?c) \<and> ws_normal (strip ?c)"
    using c by (metis stutter_free_append ws_normal_append)
  moreover have "strip (strip ?c) = strip ?c"
    unfolding strip_def
  proof (rule strip_by_idem)
    show "\<not> is_space d" if "strip_by is_space ?c = d # ds" for d ds
      using that by (rule strip_by_hd)
    show "\<not> is_space (last (strip_by is_space ?c))" if "strip_by is_space ?c \<noteq> []"
      using that by (rule strip_by_last)
  qed
  ultimately show ?thesis by blast
qed

lemma clean_line_clean_line [simp]: "clean_line (clean_line s) = clean_line s"
proof -
  have "stutter_free (dedupe_chars s)" by (rule stutter_free_dedupe_chars)
  then have "stutter_free (clean_line s) \<and> ws_normal (clean_line s) \<and> strip (clean_line s) = clean_line s"
    unfolding clean_line_def by (rule strip_collapse_normal)
  then show ?thesis by (blast intro: clean_line_fixpoint)
qed

lemma stutter_free_join:
  "stutter_free a \<Longrightarrow> stutter_free b \<Longrightarrow> stutter_free (a @ sp # b)"
proof (induction a)
  case Nil
  then show ?case by (simp add: stutter_free_Cons sp_not_letter)
next
  case (Cons x a)
  then have "stutter_free (a @ sp # b)" by (simp add: stutter_free_Cons)
  moreover have "\<not> (is_letter x \<and> take 2 (a @ sp # b) = [x, x])"
  proof
    assume x: "is_letter x \<and> take 2 (a @ sp # b) = [x, x]"
    then have "x \<noteq> sp" using sp_not_letter by auto
    with x have "take 2 a = [x, x]" by (cases a rule: stutter_free.cases) auto
    with x Cons.prems(1) show False by (simp add: stutter_free_Cons)
  qed
  ultimately show ?case by (simp add: stutter_free_Cons)
qed

lemma stutter_free_py_join:
  "\<forall>x \<in> set xs. stutter_free x \<Longrightarrow> stutter_free (py_join [sp] xs)"
  by (induction "[sp]" xs rule: py_join.induct) (auto intro: stutter_free_join)

lemma stutter_free_clean_line: "stutter_free (clean_line s)"
  using clean_line_shape by blast

text \<open>C1: clean_line is idempotent: normalising an already normalised text changes nothing.\<close>

lemma clean_line_idem: "clean_line (clean_line s) = clean_line s"
  by (rule clean_line_clean_line)

lemma clean_line_example:
  "clean_line (ustr ''  Intro   to\<newline>\<newline>Systems  '') = ustr ''Intro to Systems''"
  by (simp add: clean_line_def strip_def strip_by_def ustr_def is_space_def sp_def
      is_letter_def is_upper_def is_lower_def)

end
