(* ===== verification/Grouper.thy ===== *)
theory Grouper
  imports Normalizer
begin

text \<open>
  The Token Grouper, \<^verbatim>\<open>extract_lines\<close> of \<^verbatim>\<open>src/main.py\<close> (lines 32--62), and
  the two record types the pipeline passes around: \<open>word\<close>, the dictionary
  pdfplumber returns for a word (with the \<^verbatim>\<open>page_num\<close> key the caller adds), and
  \<open>line\<close>, the dictionary \<^verbatim>\<open>extract_lines\<close> builds. Words are grouped under the
  key \<open>(page_num, round(top / y_tol))\<close> in a \<^verbatim>\<open>defaultdict\<close>, whose keys keep the
  order of their first insertion (an association list here); Python's \<^verbatim>\<open>round\<close>
  rounds halves to even. Each group becomes one line: its words sorted stably by
  \<open>x0\<close>, their texts concatenated with a space wherever the horizontal gap exceeds
  2, the mean size, the first (leftmost) font name, the bold flag, the bounding
  box and the page re-based to 0. A zero tolerance raises ZeroDivisionError as soon
  as a word is seen; the model returns \<open>None\<close> then.
\<close>

record word =
  wtext :: ustring
  wfontname :: ustring
  wsize :: real
  wx0 :: real
  wx1 :: real
  wtop :: real
  wbottom :: real
  wpage_num :: int

record line =
  ltext :: ustring
  raw_text :: ustring
  lsize :: real
  font :: ustring
  is_bold :: bool
  x0 :: real
  x1 :: real
  y0 :: real
  y1 :: real
  page :: int

type_synonym line_key = "int \<times> int"

section \<open>Operations\<close>

text \<open>Python 3's \<^verbatim>\<open>round(x)\<close>: to the nearest integer, halves to the even one.\<close>

definition py_round :: "real \<Rightarrow> int" where
  "py_round x =
     (let f = \<lfloor>x\<rfloor>; d = x - of_int f in
      if d < 1 / 2 then f else if 1 / 2 < d then f + 1 else if even f then f else f + 1)"

definition word_key :: "real \<Rightarrow> word \<Rightarrow> line_key" where
  "word_key y_tol w = (wpage_num w, py_round (wtop w / y_tol))"

text \<open>\<^verbatim>\<open>lines[key].append(w)\<close> on a \<^verbatim>\<open>defaultdict(list)\<close>.\<close>

fun group_add :: "line_key \<Rightarrow> word \<Rightarrow> (line_key \<times> word list) list \<Rightarrow> (line_key \<times> word list) list" where
  "group_add k w [] = [(k, [w])]"
| "group_add k w ((k', ws) # gs) =
     (if k = k' then (k', ws @ [w]) # gs else (k', ws) # group_add k w gs)"

definition group_words :: "real \<Rightarrow> word list \<Rightarrow> (line_key \<times> word list) list" where
  "group_words y_tol words = fold (\<lambda>w gs. group_add (word_key y_tol w) w gs) words []"

text \<open>The loop over the sorted words that builds \<^verbatim>\<open>line_text\<close>.\<close>

fun join_words :: "real option \<Rightarrow> ustring \<Rightarrow> word list \<Rightarrow> ustring" where
  "join_words prev_right acc [] = acc"
| "join_words prev_right acc (w # ws) =
     join_words (Some (wx1 w))
       (acc @ (case prev_right of Some r \<Rightarrow> if wx0 w - r > 2 then [sp] else [] | None \<Rightarrow> [])
            @ wtext w) ws"

definition has_bold :: "ustring \<Rightarrow> bool" where
  "has_bold f \<longleftrightarrow> has_infix (ustr ''Bold'') f \<or> has_infix (ustr ''bold'') f"

definition build_line :: "line_key \<Rightarrow> word list \<Rightarrow> line" where
  "build_line k line_words0 =
     (let line_words = sort_key wx0 line_words0;
          line_text = join_words None [] line_words;
          avg_size = sum_list (map wsize line_words) / real (length line_words);
          fontnames = map wfontname line_words
      in \<lparr>ltext = clean_line line_text, raw_text = line_text, lsize = avg_size,
          font = hd fontnames, is_bold = list_ex has_bold fontnames,
          x0 = Min (set (map wx0 line_words)), x1 = Max (set (map wx1 line_words)),
          y0 = Min (set (map wtop line_words)), y1 = Max (set (map wbottom line_words)),
          page = fst k - 1\<rparr>)"

definition extract_lines :: "real \<Rightarrow> word list \<Rightarrow> line list option" where
  "extract_lines y_tol words =
     (if y_tol = 0 \<and> words \<noteq> [] then None
      else Some (map (\<lambda>(k, ws). build_line k ws) (group_words y_tol words)))"

text \<open>The shape of the grouping: distinct keys, non-empty groups, each word under its own key.\<close>

definition groups_wf :: "real \<Rightarrow> (line_key \<times> word list) list \<Rightarrow> bool" where
  "groups_wf y_tol gs \<longleftrightarrow>
     distinct (map fst gs) \<and> (\<forall>(k, ws) \<in> set gs. ws \<noteq> [] \<and> (\<forall>w \<in> set ws. word_key y_tol w = k))"

text \<open>A line of a test document, used by the witnesses of this development.\<close>

definition sample_line :: "string \<Rightarrow> real \<Rightarrow> real \<Rightarrow> int \<Rightarrow> line" where
  "sample_line t s y p =
     \<lparr>ltext = ustr t, raw_text = ustr t, lsize = s, font = ustr ''F'', is_bold = False,
      x0 = 50, x1 = 300, y0 = y, y1 = y + s, page = p\<rparr>"

declare py_round_def [model_defs] word_key_def [model_defs] group_words_def [model_defs]
  has_bold_def [model_defs] build_line_def [model_defs] extract_lines_def [model_defs]
  sample_line_def [model_defs]

section \<open>Grouping and line construction\<close>

lemma group_add_keys:
  "map fst (group_add k w gs) = (if k \<in> set (map fst gs) then map fst gs else map fst gs @ [k])"
  by (induction gs) (auto simp: rev_image_eqI)

lemma group_add_mset:
  "mset (concat (map snd (group_add k w gs))) = add_mset w (mset (concat (map snd gs)))"
  by (induction gs) auto

lemma group_add_wf:
  "groups_wf y_tol gs \<Longrightarrow> word_key y_tol w = k \<Longrightarrow> groups_wf y_tol (group_add k w gs)"
proof (induction gs)
  case Nil
  then show ?case by (simp add: groups_wf_def)
next
  case (Cons g gs)
  obtain k' ws where g: "g = (k', ws)" by (cases g)
  show ?case
  proof (cases "k = k'")
    case True
    with Cons.prems g show ?thesis by (auto simp: groups_wf_def)
  next
    case False
    from Cons.prems g have "groups_wf y_tol gs" by (simp add: groups_wf_def)
    with Cons.IH Cons.prems(2) have "groups_wf y_tol (group_add k w gs)" by simp
    moreover have "k' \<notin> set (map fst (group_add k w gs))"
      using Cons.prems(1) g False by (auto simp: groups_wf_def group_add_keys)
    ultimately show ?thesis using Cons.prems(1) g False by (auto simp: groups_wf_def)
  qed
qed

lemma fold_group_add:
  "groups_wf y_tol gs \<Longrightarrow>
   groups_wf y_tol (fold (\<lambda>w gs. group_add (word_key y_tol w) w gs) words gs) \<and>
   mset (concat (map snd (fold (\<lambda>w gs. group_add (word_key y_tol w) w gs) words gs))) =
     mset (concat (map snd gs)) + mset words"
  by (induction words arbitrary: gs) (auto simp: group_add_wf group_add_mset)

lemma group_words_wf: "groups_wf y_tol (group_words y_tol words)"
  using fold_group_add [of y_tol "[]" words] by (simp add: group_words_def groups_wf_def)

lemma group_words_mset: "mset (concat (map snd (group_words y_tol words))) = mset words"
  using fold_group_add [of y_tol "[]" words] by (simp add: group_words_def groups_wf_def)

lemma mean_bounds:
  fixes f :: "'a \<Rightarrow> real"
  assumes "xs \<noteq> []"
  shows "Min (set (map f xs)) \<le> sum_list (map f xs) / real (length xs) \<and>
         sum_list (map f xs) / real (length xs) \<le> Max (set (map f xs))"
proof -
  let ?lo = "Min (set (map f xs))" and ?hi = "Max (set (map f xs))"
  have "sum_list (map (\<lambda>_. ?lo) xs) \<le> sum_list (map f xs)"
    by (rule sum_list_mono) simp
  moreover have "sum_list (map f xs) \<le> sum_list (map (\<lambda>_. ?hi) xs)"
    by (rule sum_list_mono) simp
  moreover have "0 < real (length xs)" using assms by simp
  ultimately show ?thesis
    by (simp add: sum_list_triv field_simps)
qed

lemma build_line_fields:
  assumes "ws \<noteq> []"
  shows "ltext (build_line k ws) = clean_line (raw_text (build_line k ws))"
    and "page (build_line k ws) = fst k - 1"
    and "Min (set (map wsize ws)) \<le> lsize (build_line k ws) \<and> lsize (build_line k ws) \<le> Max (set (map wsize ws))"
    and "(\<forall>w \<in> set ws. wx0 w \<le> wx1 w) \<Longrightarrow> x0 (build_line k ws) \<le> x1 (build_line k ws)"
    and "(\<forall>w \<in> set ws. wtop w \<le> wbottom w) \<Longrightarrow> y0 (build_line k ws) \<le> y1 (build_line k ws)"
proof -
  let ?s = "sort_key wx0 ws"
  have s: "set ?s = set ws" "length ?s = length ws" "?s \<noteq> []" using assms by auto
  have "set (map wsize ?s) = set (map wsize ws)" by simp
  moreover have "sum_list (map wsize ?s) = sum_list (map wsize ws)"
    by (simp flip: sum_mset_sum_list)
  ultimately show "Min (set (map wsize ws)) \<le> lsize (build_line k ws) \<and> lsize (build_line k ws) \<le> Max (set (map wsize ws))"
    using mean_bounds [OF s(3), of wsize] s by (simp add: build_line_def Let_def)
  show "ltext (build_line k ws) = clean_line (raw_text (build_line k ws))"
    and "page (build_line k ws) = fst k - 1"
    by (simp_all add: build_line_def Let_def)
  show "x0 (build_line k ws) \<le> x1 (build_line k ws)" if "\<forall>w \<in> set ws. wx0 w \<le> wx1 w"
  proof -
    obtain w where w: "w \<in> set ws" using assms by (cases ws) auto
    have "Min (wx0 ` set ws) \<le> wx0 w" "wx1 w \<le> Max (wx1 ` set ws)" using w by simp_all
    moreover have "wx0 w \<le> wx1 w" using that w by blast
    moreover have "x0 (build_line k ws) = Min (wx0 ` set ws)" "x1 (build_line k ws) = Max (wx1 ` set ws)"
      by (simp_all add: build_line_def Let_def)
    ultimately show ?thesis by linarith
  qed
  show "y0 (build_line k ws) \<le> y1 (build_line k ws)" if "\<forall>w \<in> set ws. wtop w \<le> wbottom w"
  proof -
    obtain w where w: "w \<in> set ws" using assms by (cases ws) auto
    have "Min (wtop ` set ws) \<le> wtop w" "wbottom w \<le> Max (wbottom ` set ws)" using w by simp_all
    moreover have "wtop w \<le> wbottom w" using that w by blast
    moreover have "y0 (build_line k ws) = Min (wtop ` set ws)" "y1 (build_line k ws) = Max (wbottom ` set ws)"
      by (simp_all add: build_line_def Let_def)
    ultimately show ?thesis by linarith
  qed
qed

lemma extract_lines_nonzero:
  "y_tol \<noteq> 0 \<Longrightarrow> extract_lines y_tol words = Some (map (\<lambda>(k, ws). build_line k ws) (group_words y_tol words))"
  by (simp add: extract_lines_def)

lemma group_words_keys: "set (map fst (group_words y_tol words)) = word_key y_tol ` set words"
proof -
  let ?gs = "group_words y_tol words"
  have wf: "groups_wf y_tol ?gs" by (rule group_words_wf)
  have m: "set (concat (map snd ?gs)) = set words"
    using group_words_mset [of y_tol words] by (metis set_mset_mset)
  show ?thesis
  proof
    show "set (map fst ?gs) \<subseteq> word_key y_tol ` set words"
    proof
      fix k assume "k \<in> set (map fst ?gs)"
      then obtain ws where g: "(k, ws) \<in> set ?gs" by auto
      with wf obtain w where "w \<in> set ws" "word_key y_tol w = k"
        unfolding groups_wf_def by (cases ws) fastforce+
      with g m show "k \<in> word_key y_tol ` set words" by force
    qed
    show "word_key y_tol ` set words \<subseteq> set (map fst ?gs)"
    proof
      fix k assume "k \<in> word_key y_tol ` set words"
      then obtain w where w: "w \<in> set words" "k = word_key y_tol w" by auto
      from m w(1) have "w \<in> set (concat (map snd ?gs))" by simp
      then obtain k' ws where "(k', ws) \<in> set ?gs" "w \<in> set ws" by auto
      with wf w show "k \<in> set (map fst ?gs)" unfolding groups_wf_def by force
    qed
  qed
qed

text \<open>C16: Every line list extract_lines returns is built from a partition of the input words into non-empty groups with pairwise distinct keys, all words of a group sharing the page and the rounded vertical bucket of the group's key.\<close>

lemma extract_lines_partition:
  assumes "extract_lines y_tol words = Some ls"
  shows "\<exists>gs. ls = map (\<lambda>(k, ws). build_line k ws) gs \<and> mset (concat (map snd gs)) = mset words \<and>
           distinct (map fst gs) \<and>
           (\<forall>(k, ws) \<in> set gs. ws \<noteq> [] \<and>
              (\<forall>w \<in> set ws. wpage_num w = fst k \<and> py_round (wtop w / y_tol) = snd k))"
proof -
  let ?gs = "group_words y_tol words"
  have "ls = map (\<lambda>(k, ws). build_line k ws) ?gs"
    using assms by (simp add: extract_lines_def split: if_splits)
  moreover have "groups_wf y_tol ?gs" by (rule group_words_wf)
  ultimately show ?thesis using group_words_mset [of y_tol words]
    by (intro exI [of _ ?gs]) (fastforce simp: groups_wf_def word_key_def)
qed

text \<open>C17: extract_lines returns exactly one line per distinct (page, rounded vertical bucket) key of the input words.\<close>

lemma extract_lines_count:
  assumes "extract_lines y_tol words = Some ls"
  shows "length ls = card (word_key y_tol ` set words)"
proof -
  let ?gs = "group_words y_tol words"
  have "ls = map (\<lambda>(k, ws). build_line k ws) ?gs"
    using assms by (simp add: extract_lines_def split: if_splits)
  then have "length ls = length (map fst ?gs)" by simp
  also have "\<dots> = card (set (map fst ?gs))"
    using group_words_wf [of y_tol words] unfolding groups_wf_def
    by (metis distinct_card)
  finally show ?thesis by (simp only: group_words_keys)
qed

text \<open>C18: When the input words have well-formed boxes (x0 <= x1, top <= bottom), every line extract_lines builds has a well-formed box, a text equal to clean_line of its raw text, a page one below the page number of each of its words, and a mean size between the smallest and largest size of its words.\<close>

lemma extract_lines_line_wf:
  assumes "extract_lines y_tol words = Some ls" "l \<in> set ls"
    and "\<forall>w \<in> set words. wx0 w \<le> wx1 w \<and> wtop w \<le> wbottom w"
  shows "\<exists>k ws. ws \<noteq> [] \<and> set ws \<subseteq> set words \<and> l = build_line k ws \<and>
           (\<forall>w \<in> set ws. page l = wpage_num w - 1) \<and> ltext l = clean_line (raw_text l) \<and>
           Min (set (map wsize ws)) \<le> lsize l \<and> lsize l \<le> Max (set (map wsize ws)) \<and>
           x0 l \<le> x1 l \<and> y0 l \<le> y1 l"
proof -
  let ?gs = "group_words y_tol words"
  have "ls = map (\<lambda>(k, ws). build_line k ws) ?gs"
    using assms(1) by (simp add: extract_lines_def split: if_splits)
  with assms(2) obtain k ws where g: "(k, ws) \<in> set ?gs" "l = build_line k ws" by auto
  have wf: "ws \<noteq> []" "\<forall>w \<in> set ws. word_key y_tol w = k"
    using group_words_wf [of y_tol words] g(1) by (auto simp: groups_wf_def)
  have "set ws \<subseteq> set (concat (map snd ?gs))" using g(1) by force
  also have "\<dots> = set words"
    using group_words_mset [of y_tol words] by (metis set_mset_mset)
  finally have sub: "set ws \<subseteq> set words" .
  have box: "\<forall>w \<in> set ws. wx0 w \<le> wx1 w" "\<forall>w \<in> set ws. wtop w \<le> wbottom w"
    using sub assms(3) by auto
  have "\<forall>w \<in> set ws. fst k = wpage_num w"
    using wf(2) by (auto simp: word_key_def)
  then have "\<forall>w \<in> set ws. page l = wpage_num w - 1"
    using build_line_fields(2) [OF wf(1)] g(2) by simp
  with wf(1) sub g(2) build_line_fields [OF wf(1)] box show ?thesis by blast
qed


lemma py_round_half_even: "py_round (5 / 2) = 2 \<and> py_round (7 / 2) = 4 \<and> py_round (- 5 / 2) = - 2"
  by (simp add: py_round_def Let_def)

text \<open>C35: The font of a line is the font name of one of its leftmost words (a word of least x0), because the words are sorted by x0 before fontnames[0] is taken; the spec asks for the first word in grouping order instead.\<close>

lemma build_line_font_leftmost:
  assumes "ws \<noteq> []"
  shows "\<exists>w \<in> set ws. font (build_line k ws) = wfontname w \<and> wx0 w = Min (wx0 ` set ws)"
proof -
  let ?s = "sort_key wx0 ws"
  obtain w r where s: "?s = w # r" using assms by (cases ?s) auto
  have "w \<in> set ws" using s by (metis list.set_intros(1) set_sort)
  moreover have "font (build_line k ws) = wfontname w"
    using s by (simp add: build_line_def Let_def)
  moreover have "wx0 w = Min (wx0 ` set ws)"
  proof (rule Min_eqI [symmetric])
    have "sorted (map wx0 (w # r))" using s by (metis sorted_sort_key)
    then show "wx0 w \<le> y" if "y \<in> wx0 ` set ws" for y
      using that s by (metis (no_types) order_refl set_ConsD
          set_sort sorted_simps(2) list.simps(9) set_map)
  qed (use \<open>w \<in> set ws\<close> in auto)
  ultimately show ?thesis by blast
qed

text \<open>C36: The bold flag of a line only recognises the substrings Bold and bold: words whose font names contain no lower-case letter, such as ABCDEF+TIMES-BOLD, never make their line bold, although the spec asks for a case-insensitive bold marker.\<close>

lemma is_bold_case_sensitive:
  assumes "\<forall>w \<in> set ws. \<forall>c \<in> set (wfontname w). \<not> is_lower c"
  shows "\<not> is_bold (build_line k ws)"
proof -
  have "\<not> has_bold (wfontname w)" if "w \<in> set ws" for w
  proof
    assume "has_bold (wfontname w)"
    then have "(111::nat) \<in> set (wfontname w)"
      by (auto simp: has_bold_def ustr_def dest!: has_infix_set)
    with assms that show False by (force simp: is_lower_def)
  qed
  then show ?thesis by (auto simp: build_line_def Let_def list_ex_iff)
qed

lemma build_line_font_leftmost_witness:
  "font (build_line (1, 20)
     [\<lparr>wtext = ustr ''two'', wfontname = ustr ''R'', wsize = 12, wx0 = 90, wx1 = 110, wtop = 40, wbottom = 52, wpage_num = 1\<rparr>,
      \<lparr>wtext = ustr ''One'', wfontname = ustr ''L'', wsize = 12, wx0 = 10, wx1 = 40, wtop = 40, wbottom = 52, wpage_num = 1\<rparr>]) = ustr ''L'' \<and>
   (\<exists>w \<in> set [\<lparr>wtext = ustr ''two'', wfontname = ustr ''R'', wsize = 12, wx0 = 90, wx1 = 110, wtop = 40, wbottom = 52, wpage_num = 1\<rparr>,
      \<lparr>wtext = ustr ''One'', wfontname = ustr ''L'', wsize = 12, wx0 = 10, wx1 = 40, wtop = 40, wbottom = 52, wpage_num = 1\<rparr>].
     font (build_line (1, 20)
       [\<lparr>wtext = ustr ''two'', wfontname = ustr ''R'', wsize = 12, wx0 = 90, wx1 = 110, wtop = 40, wbottom = 52, wpage_num = 1\<rparr>,
        \<lparr>wtext = ustr ''One'', wfontname = ustr ''L'', wsize = 12, wx0 = 10, wx1 = 40, wtop = 40, wbottom = 52, wpage_num = 1\<rparr>]) = wfontname w \<and>
     wx0 w = Min (wx0 ` set [\<lparr>wtext = ustr ''two'', wfontname = ustr ''R'', wsize = 12, wx0 = 90, wx1 = 110, wtop = 40, wbottom = 52, wpage_num = 1\<rparr>,
      \<lparr>wtext = ustr ''One'', wfontname = ustr ''L'', wsize = 12, wx0 = 10, wx1 = 40, wtop = 40, wbottom = 52, wpage_num = 1\<rparr>]))"
  by (rule conjI, simp add: build_line_def Let_def, rule build_line_font_leftmost, simp)

lemma extract_lines_partition_witness:
  "let ws = [\<lparr>wtext = ustr ''Intro'', wfontname = ustr ''F'', wsize = 12, wx0 = 10, wx1 = 40, wtop = 40, wbottom = 52, wpage_num = 1\<rparr>,
      \<lparr>wtext = ustr ''duction'', wfontname = ustr ''F'', wsize = 12, wx0 = 41, wx1 = 80, wtop = 41, wbottom = 52, wpage_num = 1\<rparr>,
      \<lparr>wtext = ustr ''Body'', wfontname = ustr ''F'', wsize = 10, wx0 = 10, wx1 = 30, wtop = 70, wbottom = 80, wpage_num = 1\<rparr>] in
   \<exists>ls. extract_lines 2 ws = Some ls \<and>
     (\<exists>gs. ls = map (\<lambda>(k, ws). build_line k ws) gs \<and> mset (concat (map snd gs)) = mset ws \<and>
        distinct (map fst gs) \<and>
        (\<forall>(k, ws) \<in> set gs. ws \<noteq> [] \<and> (\<forall>w \<in> set ws. wpage_num w = fst k \<and> py_round (wtop w / 2) = snd k)))"
proof -
  have e: "extract_lines 2 [\<lparr>wtext = ustr ''Intro'', wfontname = ustr ''F'', wsize = 12, wx0 = 10, wx1 = 40, wtop = 40, wbottom = 52, wpage_num = 1\<rparr>,
      \<lparr>wtext = ustr ''duction'', wfontname = ustr ''F'', wsize = 12, wx0 = 41, wx1 = 80, wtop = 41, wbottom = 52, wpage_num = 1\<rparr>,
      \<lparr>wtext = ustr ''Body'', wfontname = ustr ''F'', wsize = 10, wx0 = 10, wx1 = 30, wtop = 70, wbottom = 80, wpage_num = 1\<rparr>] = Some (map (\<lambda>(k, ws). build_line k ws) (group_words 2 [\<lparr>wtext = ustr ''Intro'', wfontname = ustr ''F'', wsize = 12, wx0 = 10, wx1 = 40, wtop = 40, wbottom = 52, wpage_num = 1\<rparr>,
      \<lparr>wtext = ustr ''duction'', wfontname = ustr ''F'', wsize = 12, wx0 = 41, wx1 = 80, wtop = 41, wbottom = 52, wpage_num = 1\<rparr>,
      \<lparr>wtext = ustr ''Body'', wfontname = ustr ''F'', wsize = 10, wx0 = 10, wx1 = 30, wtop = 70, wbottom = 80, wpage_num = 1\<rparr>]))"
    by (rule extract_lines_nonzero) simp
  show ?thesis unfolding Let_def by (rule exI, rule conjI, rule e, rule extract_lines_partition [OF e])
qed

lemma extract_lines_count_witness:
  "let ws = [\<lparr>wtext = ustr ''Intro'', wfontname = ustr ''F'', wsize = 12, wx0 = 10, wx1 = 40, wtop = 40, wbottom = 52, wpage_num = 1\<rparr>,
      \<lparr>wtext = ustr ''duction'', wfontname = ustr ''F'', wsize = 12, wx0 = 41, wx1 = 80, wtop = 41, wbottom = 52, wpage_num = 1\<rparr>,
      \<lparr>wtext = ustr ''Body'', wfontname = ustr ''F'', wsize = 10, wx0 = 10, wx1 = 30, wtop = 70, wbottom = 80, wpage_num = 1\<rparr>] in
   \<exists>ls. extract_lines 2 ws = Some ls \<and> length ls = card (word_key 2 ` set ws) \<and> length ls = 2"
proof -
  define ws where "ws = [\<lparr>wtext = ustr ''Intro'', wfontname = ustr ''F'', wsize = 12, wx0 = 10, wx1 = 40, wtop = 40, wbottom = 52, wpage_num = 1\<rparr>,
      \<lparr>wtext = ustr ''duction'', wfontname = ustr ''F'', wsize = 12, wx0 = 41, wx1 = 80, wtop = 41, wbottom = 52, wpage_num = 1\<rparr>,
      \<lparr>wtext = ustr ''Body'', wfontname = ustr ''F'', wsize = 10, wx0 = 10, wx1 = 30, wtop = 70, wbottom = 80, wpage_num = 1\<rparr>]"
  define ls where "ls = map (\<lambda>(k, ws). build_line k ws) (group_words 2 ws)"
  have e: "extract_lines 2 ws = Some ls"
    unfolding ls_def by (rule extract_lines_nonzero) simp
  have "card (word_key 2 ` set ws) = 2"
    unfolding ws_def by (simp add: word_key_def py_round_def Let_def)
  with extract_lines_count [OF e] have "length ls = card (word_key 2 ` set ws) \<and> length ls = 2"
    by simp
  with e show ?thesis unfolding Let_def ws_def [symmetric] by blast
qed

lemma extract_lines_line_wf_witness:
  "let ws = [\<lparr>wtext = ustr ''Intro'', wfontname = ustr ''F'', wsize = 12, wx0 = 10, wx1 = 40, wtop = 40, wbottom = 52, wpage_num = 1\<rparr>,
      \<lparr>wtext = ustr ''duction'', wfontname = ustr ''F'', wsize = 12, wx0 = 41, wx1 = 80, wtop = 41, wbottom = 52, wpage_num = 1\<rparr>,
      \<lparr>wtext = ustr ''Body'', wfontname = ustr ''F'', wsize = 10, wx0 = 10, wx1 = 30, wtop = 70, wbottom = 80, wpage_num = 1\<rparr>] in
   \<exists>ls l. extract_lines 2 ws = Some ls \<and> l \<in> set ls \<and>
     (\<exists>k ws'. ws' \<noteq> [] \<and> set ws' \<subseteq> set ws \<and> l = build_line k ws' \<and>
        (\<forall>w \<in> set ws'. page l = wpage_num w - 1) \<and> ltext l = clean_line (raw_text l) \<and>
        Min (set (map wsize ws')) \<le> lsize l \<and> lsize l \<le> Max (set (map wsize ws')) \<and>
        x0 l \<le> x1 l \<and> y0 l \<le> y1 l)"
proof -
  define ws where "ws = [\<lparr>wtext = ustr ''Intro'', wfontname = ustr ''F'', wsize = 12, wx0 = 10, wx1 = 40, wtop = 40, wbottom = 52, wpage_num = 1\<rparr>,
      \<lparr>wtext = ustr ''duction'', wfontname = ustr ''F'', wsize = 12, wx0 = 41, wx1 = 80, wtop = 41, wbottom = 52, wpage_num = 1\<rparr>,
      \<lparr>wtext = ustr ''Body'', wfontname = ustr ''F'', wsize = 10, wx0 = 10, wx1 = 30, wtop = 70, wbottom = 80, wpage_num = 1\<rparr>]"
  define ls where "ls = map (\<lambda>(k, ws). build_line k ws) (group_words 2 ws)"
  have e: "extract_lines 2 ws = Some ls"
    unfolding ls_def by (rule extract_lines_nonzero) simp
  have "group_words 2 ws = [((1, 20), take 2 ws), ((1, 35), drop 2 ws)]"
    unfolding ws_def by (simp add: group_words_def word_key_def py_round_def Let_def)
  then have l: "build_line (1, 20) (take 2 ws) \<in> set ls" by (simp add: ls_def)
  have "\<forall>w \<in> set ws. wx0 w \<le> wx1 w \<and> wtop w \<le> wbottom w" unfolding ws_def by simp
  from extract_lines_line_wf [OF e l this] e l show ?thesis
    unfolding Let_def ws_def [symmetric] by blast
qed

lemma is_bold_case_sensitive_witness: "\<not> is_bold (build_line (1, 20) [\<lparr>wtext = ustr ''Report'', wfontname = ustr ''ABCDEF+TIMES-BOLD'', wsize = 12, wx0 = 10, wx1 = 40, wtop = 40, wbottom = 52, wpage_num = 1\<rparr>])"
  by (rule is_bold_case_sensitive) (simp add: ustr_def is_lower_def)

end
