(* ===== verification/Percentile.thy ===== *)
theory Percentile
  imports Prelude
begin

text \<open>
  The threshold computation of \<^verbatim>\<open>extract_headings\<close> (\<^verbatim>\<open>src/main.py\<close>, lines
  111--113): \<^verbatim>\<open>np.percentile(all_sizes, q)\<close> with numpy's default \<open>linear\<close>
  method. The values are sorted, the virtual index \<open>q/100 * (n - 1)\<close> is split into
  its floor \<open>prev\<close> and fraction \<open>gamma\<close>, and the result interpolates linearly
  between the order statistics \<open>prev\<close> and \<open>min (prev + 1) (n - 1)\<close>. numpy
  raises IndexError on an empty array: the model returns \<open>None\<close> there, and
  \<open>heading_candidates\<close> turns it into \<open>Inl IndexError\<close>. Arithmetic is exact
  (\<open>real\<close>); the rounding of floating point is not modelled.
  The lemmas, used for the level thresholds, show that a percentile lies between the smallest and the largest value
  and that it is monotone in \<open>q\<close>: the 90th percentile is at least the 75th, which is
  at least the 60th.
\<close>

definition interp :: "real list \<Rightarrow> real \<Rightarrow> real" where
  "interp a vi =
     (let n = length a; prev = nat \<lfloor>vi\<rfloor>; next = min (prev + 1) (n - 1);
          gamma = vi - real prev
      in a ! prev + (a ! next - a ! prev) * gamma)"

definition percentile :: "real list \<Rightarrow> real \<Rightarrow> real option" where
  "percentile xs q =
     (if xs = [] then None
      else Some (interp (sort xs) (q / 100 * real (length xs - 1))))"

declare interp_def [model_defs] percentile_def [model_defs]

section \<open>Interpolation between order statistics\<close>

lemma interp_segment:
  assumes "sorted a" "0 \<le> vi" "vi \<le> real (length a - 1)" "a \<noteq> []"
  shows "a ! nat \<lfloor>vi\<rfloor> \<le> interp a vi \<and>
         interp a vi \<le> a ! min (nat \<lfloor>vi\<rfloor> + 1) (length a - 1)"
proof -
  let ?p = "nat \<lfloor>vi\<rfloor>"
  let ?n = "min (?p + 1) (length a - 1)"
  let ?g = "vi - real ?p"
  have "\<lfloor>vi\<rfloor> \<le> \<lfloor>real (length a - 1)\<rfloor>"
    using assms(3) by (rule floor_mono)
  then have p_le: "?p \<le> length a - 1"
    by (simp add: nat_le_iff)
  have g: "0 \<le> ?g" "?g < 1"
    using assms(2) by simp_all linarith
  have le: "a ! ?p \<le> a ! ?n"
    using assms(1,4) p_le by (intro sorted_nth_mono) (auto simp: min_def)
  have "interp a vi = a ! ?p + (a ! ?n - a ! ?p) * ?g"
    by (simp add: interp_def Let_def)
  moreover have "(a ! ?n - a ! ?p) * ?g \<le> (a ! ?n - a ! ?p) * 1"
    using le g by (intro mult_left_mono) simp_all
  moreover have "0 \<le> (a ! ?n - a ! ?p) * ?g"
    using le g by simp
  ultimately show ?thesis by simp
qed

lemma interp_mono:
  assumes a: "sorted a" "a \<noteq> []"
    and t: "0 \<le> t1" "t1 \<le> t2" "t2 \<le> real (length a - 1)"
  shows "interp a t1 \<le> interp a t2"
proof -
  let ?p1 = "nat \<lfloor>t1\<rfloor>" and ?p2 = "nat \<lfloor>t2\<rfloor>"
  have seg1: "a ! ?p1 \<le> interp a t1 \<and> interp a t1 \<le> a ! min (?p1 + 1) (length a - 1)"
    using a t by (intro interp_segment) auto
  have seg2: "a ! ?p2 \<le> interp a t2"
    using a t by (intro interp_segment [THEN conjunct1]) auto
  have "\<lfloor>t1\<rfloor> \<le> \<lfloor>t2\<rfloor>" using t(2) by (rule floor_mono)
  then consider (same) "\<lfloor>t1\<rfloor> = \<lfloor>t2\<rfloor>" | (less) "?p1 < ?p2"
    using t(1) by linarith
  then show ?thesis
  proof cases
    case same
    let ?n = "min (?p1 + 1) (length a - 1)"
    have "a ! ?p1 \<le> a ! ?n"
      using seg1 by linarith
    moreover have "t1 - real ?p1 \<le> t2 - real ?p1" using t(2) by simp
    ultimately have "(a ! ?n - a ! ?p1) * (t1 - real ?p1) \<le> (a ! ?n - a ! ?p1) * (t2 - real ?p1)"
      by (intro mult_left_mono) simp_all
    with same show ?thesis by (simp add: interp_def Let_def)
  next
    case less
    have "\<lfloor>t2\<rfloor> \<le> \<lfloor>real (length a - 1)\<rfloor>" using t(3) by (rule floor_mono)
    then have "?p2 \<le> length a - 1" by (simp add: nat_le_iff)
    with less have "?p1 + 1 \<le> length a - 1" by linarith
    then have "min (?p1 + 1) (length a - 1) = ?p1 + 1" by (simp add: min_def)
    moreover have "a ! (?p1 + 1) \<le> a ! ?p2"
    proof -
      from less have "?p1 + 1 \<le> ?p2" by (metis Suc_eq_plus1 Suc_leI)
      moreover from \<open>?p2 \<le> length a - 1\<close> a(2) have "?p2 < length a" by (cases a) auto
      ultimately show ?thesis using a(1) by (metis sorted_nth_mono)
    qed
    ultimately show ?thesis using seg1 seg2 by linarith
  qed
qed

lemma percentile_index_range:
  assumes "0 \<le> q" "q \<le> 100"
  shows "0 \<le> q / 100 * real (n - 1) \<and> q / 100 * real (n - 1) \<le> real (n - 1)"
proof -
  have "q / 100 * real (n - 1) \<le> 1 * real (n - 1)"
    using assms by (intro mult_right_mono) simp_all
  with assms show ?thesis by simp
qed

lemma sorted_nth_bounds:
  assumes "sorted a" "i < length a"
  shows "a ! 0 \<le> a ! i \<and> a ! i \<le> a ! (length a - 1)"
  using assms by (auto intro: sorted_nth_mono)

lemma percentile_le_percentile:
  assumes "xs \<noteq> []" "0 \<le> q1" "q1 \<le> q2" "q2 \<le> 100"
  shows "\<exists>p1 p2. percentile xs q1 = Some p1 \<and> percentile xs q2 = Some p2 \<and> p1 \<le> p2"
proof -
  let ?a = "sort xs" and ?m = "real (length xs - 1)"
  have "q1 / 100 * ?m \<le> q2 / 100 * ?m"
    using assms(3) by (intro mult_right_mono divide_right_mono) simp_all
  moreover have "0 \<le> q1 / 100 * ?m" "q2 / 100 * ?m \<le> ?m"
    using percentile_index_range assms(2-4) by auto
  ultimately have "interp ?a (q1 / 100 * ?m) \<le> interp ?a (q2 / 100 * ?m)"
    using assms(1) by (intro interp_mono) simp_all
  with assms(1) show ?thesis by (simp add: percentile_def)
qed

lemma percentile_in_range:
  assumes "xs \<noteq> []" "0 \<le> q" "q \<le> 100"
  shows "\<exists>p. percentile xs q = Some p \<and> Min (set xs) \<le> p \<and> p \<le> Max (set xs)"
proof -
  let ?a = "sort xs" and ?m = "real (length xs - 1)"
  let ?vi = "q / 100 * ?m"
  have vi: "0 \<le> ?vi" "?vi \<le> ?m" using percentile_index_range assms(2,3) by auto
  have "\<lfloor>?vi\<rfloor> \<le> \<lfloor>?m\<rfloor>" using vi(2) by (rule floor_mono)
  then have "nat \<lfloor>?vi\<rfloor> \<le> length xs - 1" by (simp only: floor_of_nat nat_le_iff)
  with assms(1) have p: "nat \<lfloor>?vi\<rfloor> < length ?a" by (cases xs) auto
  have seg: "?a ! nat \<lfloor>?vi\<rfloor> \<le> interp ?a ?vi \<and>
             interp ?a ?vi \<le> ?a ! min (nat \<lfloor>?vi\<rfloor> + 1) (length ?a - 1)"
    using assms(1) vi by (intro interp_segment) simp_all
  have "?a ! 0 \<le> ?a ! nat \<lfloor>?vi\<rfloor>"
    using sorted_nth_bounds [OF sorted_sort p] by (rule conjunct1)
  moreover have "?a ! min (nat \<lfloor>?vi\<rfloor> + 1) (length ?a - 1) \<le> ?a ! (length ?a - 1)"
  proof -
    have "min (nat \<lfloor>?vi\<rfloor> + 1) (length ?a - 1) \<le> length ?a - 1" by (rule min.cobounded2)
    with p have "min (nat \<lfloor>?vi\<rfloor> + 1) (length ?a - 1) < length ?a" by linarith
    then show ?thesis using sorted_nth_bounds [OF sorted_sort] by blast
  qed
  moreover have "?a ! 0 \<in> set xs" "?a ! (length ?a - 1) \<in> set xs"
  proof -
    from assms(1) have n: "0 < length ?a" by simp
    then have "?a ! 0 \<in> set ?a" by (rule nth_mem)
    moreover from n have "?a ! (length ?a - 1) \<in> set ?a" by (intro nth_mem) arith
    ultimately have "?a ! 0 \<in> set ?a" "?a ! (length ?a - 1) \<in> set ?a" by blast+
    then show "?a ! 0 \<in> set xs" "?a ! (length ?a - 1) \<in> set xs" by simp_all
  qed
  then have "Min (set xs) \<le> ?a ! 0" "?a ! (length ?a - 1) \<le> Max (set xs)"
    by simp_all
  ultimately show ?thesis using seg assms(1) by (simp add: percentile_def)
qed

end
