(* ===== verification/Noise.thy ===== *)
theory Noise
  imports Normalizer
begin

text \<open>
  The noise filter \<^verbatim>\<open>is_noisy_heading\<close> of \<^verbatim>\<open>src/main.py\<close> (lines 20--30).
  The text is first stripped of the characters \<^verbatim>\<open>" :-\<bullet>\<cdot>"\<close> (space, colon,
  hyphen, U+2022 and U+25CF); then four tests run in the order of the code:
  length below 5; \<^verbatim>\<open>re.fullmatch(r"[A-Z\d\s,]+")\<close> together with at most four
  \<^verbatim>\<open>split()\<close> words; the case-insensitive search for \<^verbatim>\<open>.com\<close>, \<^verbatim>\<open>\bwww\b\<close>,
  \<^verbatim>\<open>RSVP\b\<close> or \<^verbatim>\<open>^\d{5}$\<close> (Python's \<^verbatim>\<open>$\<close> also matches before a final
  newline); and the lower-cased, colon-stripped text being one of five field
  words. Word boundaries use the word characters of the prelude.
  The lemmas show that postal codes and the field words are noise in every spelling,
  and that the short field words date, time and page never reach the fourth test:
  the length test has already decided them.
\<close>

definition is_bullet :: "uchar \<Rightarrow> bool" where
  "is_bullet c \<longleftrightarrow> c \<in> set [32, 58, 45, 8226, 9679]"

definition caps_class :: "uchar \<Rightarrow> bool" where
  "caps_class c \<longleftrightarrow> is_upper c \<or> is_digit c \<or> is_space c \<or> c = 44"

text \<open>\<^verbatim>\<open>re.fullmatch(r"[A-Z\d\s,]+", text)\<close>.\<close>

definition caps_fullmatch :: "ustring \<Rightarrow> bool" where
  "caps_fullmatch t \<longleftrightarrow> t \<noteq> [] \<and> list_all caps_class t"

text \<open>
  A match of the lower-case pattern \<open>p\<close> at the start of \<open>s\<close>, case-insensitively,
  followed by a word boundary; \<open>lb\<close> asks for a boundary before it too, and \<open>pw\<close>
  says whether the character before \<open>s\<close> is a word character. The patterns start
  and end with word characters, so a boundary is a non-word neighbour or an end.
\<close>

definition bounded_at :: "bool \<Rightarrow> ustring \<Rightarrow> bool \<Rightarrow> ustring \<Rightarrow> bool" where
  "bounded_at lb p pw s \<longleftrightarrow>
     (\<not> lb \<or> \<not> pw) \<and> lower (take (length p) s) = p \<and> length p \<le> length s \<and>
     (drop (length p) s = [] \<or> \<not> is_word (hd (drop (length p) s)))"

fun search_bounded :: "bool \<Rightarrow> ustring \<Rightarrow> bool \<Rightarrow> ustring \<Rightarrow> bool" where
  "search_bounded lb p pw [] = bounded_at lb p pw []"
| "search_bounded lb p pw (c # cs) =
     (bounded_at lb p pw (c # cs) \<or> search_bounded lb p (is_word c) cs)"

text \<open>\<^verbatim>\<open>^\d{5}$\<close> without MULTILINE.\<close>

definition five_digits :: "ustring \<Rightarrow> bool" where
  "five_digits t \<longleftrightarrow>
     (length t = 5 \<and> list_all is_digit t) \<or>
     (length t = 6 \<and> list_all is_digit (take 5 t) \<and> t ! 5 = 10)"

definition noise_search :: "ustring \<Rightarrow> bool" where
  "noise_search t \<longleftrightarrow>
     has_infix (ustr ''.com'') (lower t) \<or> search_bounded True (ustr ''www'') False t \<or>
     search_bounded False (ustr ''rsvp'') False t \<or> five_digits t"

definition field_keywords :: "ustring list" where
  "field_keywords = map ustr [''address'', ''date'', ''time'', ''location'', ''page'']"

definition is_noisy_heading :: "ustring \<Rightarrow> bool" where
  "is_noisy_heading text0 =
     (let text = strip_by is_bullet text0 in
      if length text < 5 then True
      else if caps_fullmatch text \<and> length (split_ws text) \<le> 4 then True
      else if noise_search text then True
      else if strip_by (\<lambda>c. c = 58) (lower text) \<in> set field_keywords then True
      else False)"

declare is_bullet_def [model_defs] caps_class_def [model_defs] caps_fullmatch_def [model_defs]
  bounded_at_def [model_defs] five_digits_def [model_defs] noise_search_def [model_defs]
  field_keywords_def [model_defs] is_noisy_heading_def [model_defs]

section \<open>Which texts are noise\<close>

lemma is_noisy_heading_cases:
  "is_noisy_heading t \<longleftrightarrow>
     (let s = strip_by is_bullet t in
      length s < 5 \<or> (caps_fullmatch s \<and> length (split_ws s) \<le> 4) \<or> noise_search s \<or>
      strip_by (\<lambda>c. c = 58) (lower s) \<in> set field_keywords)"
  by (simp add: is_noisy_heading_def Let_def)

lemma strip_by_bullet_digits:
  "list_all is_digit t \<Longrightarrow> strip_by is_bullet t = t"
proof (rule strip_by_idem)
  assume t: "list_all is_digit t"
  then show "\<not> is_bullet c" if "t = c # cs" for c cs
    using that by (auto simp: is_bullet_def is_digit_def)
  show "\<not> is_bullet (last t)" if "t \<noteq> []"
  proof -
    from that t have "is_digit (last t)" by (simp add: list_all_iff)
    then show ?thesis by (auto simp: is_bullet_def is_digit_def)
  qed
qed

lemma lower_not_bullet: "is_lower (lower_char c) \<Longrightarrow> \<not> is_bullet c"
  by (auto simp: is_bullet_def lower_char_def is_upper_def is_lower_def)


text \<open>C26: Every text of exactly five ASCII digits (a postal code such as 12345) is noise, whatever else holds of the line.\<close>

lemma noisy_five_digits:
  assumes "length t = 5" "list_all is_digit t"
  shows "is_noisy_heading t"
proof -
  from assms(2) have "strip_by is_bullet t = t" by (rule strip_by_bullet_digits)
  moreover have "five_digits t" using assms by (simp add: five_digits_def)
  ultimately show ?thesis by (simp add: is_noisy_heading_cases noise_search_def)
qed

lemma noisy_five_digits_witness: "is_noisy_heading (ustr ''12345'')"
  by (rule noisy_five_digits) (simp_all add: ustr_def is_digit_def)

text \<open>A text with fewer than five characters left after stripping spaces, colons, hyphens and the two bullet characters from both ends is noise.\<close>

lemma noisy_short:
  "length (strip_by is_bullet t) < 5 \<Longrightarrow> is_noisy_heading t"
  by (simp add: is_noisy_heading_cases)

lemma noisy_short_witness: "is_noisy_heading ([8226, 32] @ ustr ''ab'' @ [32, 9679])"
  by (rule noisy_short) (simp add: strip_by_def is_bullet_def ustr_def)

text \<open>C27: Each of the five field words address, date, time, location and page is noise in any capitalisation, with any leading spaces and trailing colons (for example Address:, LOCATION or Page::).\<close>

lemma noisy_field_word:
  assumes "lower t \<in> {ustr ''address'', ustr ''date'', ustr ''time'', ustr ''location'', ustr ''page''}"
  shows "is_noisy_heading (replicate m sp @ t @ replicate n 58)"
proof -
  from assms have ne: "t \<noteq> []" by (auto simp: lower_def ustr_def)
  from assms have "is_lower (hd (lower t)) \<and> is_lower (last (lower t))"
    by (auto simp: ustr_def is_lower_def)
  with ne have "is_lower (lower_char (hd t))" "is_lower (lower_char (last t))"
    by (simp_all add: lower_def hd_map last_map)
  then have hb: "\<not> is_bullet (hd t)" "\<not> is_bullet (last t)" by (simp_all add: lower_not_bullet)
  have "strip_by is_bullet (replicate m sp @ t @ replicate n 58) = t"
    by (intro strip_by_pad ne hb) (simp_all add: is_bullet_def sp_def)
  moreover from assms have "strip_by (\<lambda>c. c = 58) (lower t) \<in> set field_keywords"
    by (auto simp: field_keywords_def strip_by_def ustr_def)
  ultimately show ?thesis by (simp add: is_noisy_heading_cases)
qed


lemma noisy_field_word_witness: "is_noisy_heading (replicate 2 sp @ ustr ''Location'' @ replicate 1 58)"
  by (rule noisy_field_word) (simp add: ustr_def lower_def lower_char_def is_upper_def)


text \<open>The all-caps banner rule is case-sensitive: ABOUT US is noise, while About Us, the same words in title case, is kept as a heading.\<close>

lemma noisy_caps_case_sensitive:
  "is_noisy_heading (ustr ''ABOUT US'') \<and> \<not> is_noisy_heading (ustr ''About Us'')"
  by (simp add: model_defs)

end
