(* ===== verification/Headings.thy ===== *)
theory Headings
  imports Grouper Percentile Noise
begin

text \<open>
  The Heading Classifier: \<^verbatim>\<open>merge_multiline_headings\<close> and
  \<^verbatim>\<open>extract_headings\<close> of \<^verbatim>\<open>src/main.py\<close> (lines 81--146). A heading is a line
  with the key \<^verbatim>\<open>level\<close> added (a record extension of \<open>line\<close>). The candidates
  are the lines of at least five characters, tagged H1, H2 or H3 by the 90th, 75th
  and 60th percentile of their sizes and sorted stably by \<open>(page, y0)\<close>.
  \<^verbatim>\<open>merge_multiline_headings\<close> is modelled as the code is written, an index loop
  with a \<^verbatim>\<open>skip\<close> set and an inner \<^verbatim>\<open>while\<close> loop (\<open>mmh_loop\<close>,
  \<open>absorb_loop\<close>), and is proved equal to a recursive definition over the list
  (\<open>merge_runs\<close>, with \<open>chain\<close> for the inner loop). The outline loop
  (\<open>outline_loop\<close>) cleans each text again, drops noise, keeps the first heading of
  each \<open>(text, page, level)\<close> and the result is cut to ten entries.
  \<open>heading_candidates\<close> and \<open>extract_headings\<close> return \<open>py_error + _\<close>: without
  the guard of line 108, \<^verbatim>\<open>np.percentile\<close> would raise IndexError on a document
  without content lines; the lemmas show that with the guard they never return an error.
\<close>

datatype heading_level = H1 | H2 | H3

record heading = line +
  level :: heading_level

record entry =
  e_level :: heading_level
  e_text :: ustring
  e_page :: int

section \<open>Operations\<close>

definition to_heading :: "line \<Rightarrow> heading_level \<Rightarrow> heading" where
  "to_heading l lv =
     \<lparr>ltext = ltext l, raw_text = raw_text l, lsize = lsize l, font = font l, is_bold = is_bold l,
      x0 = x0 l, x1 = x1 l, y0 = y0 l, y1 = y1 l, page = page l, level = lv\<rparr>"

text \<open>The continuation test of the inner \<^verbatim>\<open>while\<close> loop and its update of \<^verbatim>\<open>merged_line\<close>.\<close>

definition continues :: "heading \<Rightarrow> heading \<Rightarrow> bool" where
  "continues ml nxt \<longleftrightarrow>
     page nxt = page ml \<and> \<bar>y0 nxt - y1 ml\<bar> < 15 \<and> \<bar>lsize nxt - lsize ml\<bar> < 1.2 \<and>
     \<bar>x0 nxt - x0 ml\<bar> < 10"

definition absorb :: "heading \<Rightarrow> heading \<Rightarrow> heading" where
  "absorb ml nxt = ml\<lparr>ltext := ltext ml @ [sp] @ ltext nxt, y1 := y1 nxt\<rparr>"

definition clean_heading :: "heading \<Rightarrow> heading" where
  "clean_heading ml = ml\<lparr>ltext := clean_line (ltext ml)\<rparr>"

function absorb_loop :: "heading list \<Rightarrow> nat \<Rightarrow> heading \<Rightarrow> nat set \<Rightarrow> heading \<times> nat set" where
  "absorb_loop hs j ml skip =
     (if j < length hs then
        if continues ml (hs ! j) then absorb_loop hs (Suc j) (absorb ml (hs ! j)) (insert j skip)
        else (ml, skip)
      else (ml, skip))"
  by pat_completeness auto
termination
  by (relation "measure (\<lambda>(hs, j, _, _). length hs - j)") auto

function mmh_loop :: "heading list \<Rightarrow> nat \<Rightarrow> nat set \<Rightarrow> heading list \<Rightarrow> heading list" where
  "mmh_loop hs i skip merged =
     (if i < length hs then
        if i \<in> skip then mmh_loop hs (Suc i) skip merged
        else (case absorb_loop hs (Suc i) (hs ! i) skip of
                (ml, skip') \<Rightarrow> mmh_loop hs (Suc i) skip' (merged @ [clean_heading ml]))
      else merged)"
  by pat_completeness auto
termination
  by (relation "measure (\<lambda>(hs, i, _, _). length hs - i)") auto

definition merge_multiline_headings :: "heading list \<Rightarrow> heading list" where
  "merge_multiline_headings headings = mmh_loop headings 0 {} []"

text \<open>The same loop over the list: \<open>chain\<close> absorbs the continuations of one heading.\<close>

fun chain :: "heading \<Rightarrow> heading list \<Rightarrow> heading \<times> heading list" where
  "chain ml [] = (ml, [])"
| "chain ml (h # hs) = (if continues ml h then chain (absorb ml h) hs else (ml, h # hs))"

function merge_runs :: "heading list \<Rightarrow> heading list" where
  "merge_runs [] = []"
| "merge_runs (h # hs) = (case chain h hs of (ml, rest) \<Rightarrow> clean_heading ml # merge_runs rest)"
  by pat_completeness auto
termination
proof (relation "measure length")
  have le: "length (snd (chain ml hs)) \<le> length hs" for ml hs
    by (induction ml hs rule: chain.induct) auto
  fix h hs ml rest
  assume "(ml, rest) = chain h hs"
  then have "length rest \<le> length hs" using le [of h hs] by (metis snd_conv)
  then show "(rest, h # hs) \<in> measure length" by simp
qed simp

text \<open>Level assignment, most restrictive threshold first (lines 116--126).\<close>

definition assign_level :: "real \<Rightarrow> real \<Rightarrow> real \<Rightarrow> line \<Rightarrow> heading_level option" where
  "assign_level size_90 size_75 size_60 l =
     (if size_90 \<le> lsize l then Some H1
      else if size_75 \<le> lsize l then Some H2
      else if size_60 \<le> lsize l then Some H3
      else None)"

fun tag_levels :: "real \<Rightarrow> real \<Rightarrow> real \<Rightarrow> line list \<Rightarrow> heading list" where
  "tag_levels s90 s75 s60 [] = []"
| "tag_levels s90 s75 s60 (l # ls) =
     (case assign_level s90 s75 s60 l of
        None \<Rightarrow> tag_levels s90 s75 s60 ls
      | Some lv \<Rightarrow> to_heading l lv # tag_levels s90 s75 s60 ls)"

definition reading_key :: "heading \<Rightarrow> int \<times> real" where
  "reading_key h = (page h, y0 h)"

text \<open>Lines 106--128: content lines, thresholds, tagged candidates in reading order.\<close>

definition heading_candidates :: "line list \<Rightarrow> py_error + heading list" where
  "heading_candidates lines =
     (let content_lines = filter (\<lambda>l. 5 \<le> length (ltext l)) lines;
          all_sizes = map lsize content_lines
      in if all_sizes = [] then Inr []
         else case (percentile all_sizes 90, percentile all_sizes 75, percentile all_sizes 60) of
                (Some size_90, Some size_75, Some size_60) \<Rightarrow>
                  Inr (sort_key reading_key (tag_levels size_90 size_75 size_60 content_lines))
              | _ \<Rightarrow> Inl IndexError)"

type_synonym outline_key = "ustring \<times> int \<times> heading_level"

definition entry_key :: "entry \<Rightarrow> outline_key" where
  "entry_key e = (e_text e, e_page e, e_level e)"

text \<open>Lines 131--144: the loop over the merged headings with the set \<^verbatim>\<open>seen\<close>.\<close>

fun outline_loop :: "outline_key set \<Rightarrow> heading list \<Rightarrow> entry list" where
  "outline_loop seen [] = []"
| "outline_loop seen (h # hs) =
     (let htext = clean_line (ltext h) in
      if is_noisy_heading htext then outline_loop seen hs
      else let key = (htext, page h, level h) in
           if key \<notin> seen then \<lparr>e_level = level h, e_text = htext, e_page = page h\<rparr> # outline_loop (insert key seen) hs
           else outline_loop seen hs)"

definition extract_headings :: "line list \<Rightarrow> py_error + entry list" where
  "extract_headings lines =
     (case heading_candidates lines of
        Inl e \<Rightarrow> Inl e
      | Inr candidates \<Rightarrow> Inr (take 10 (outline_loop {} (merge_multiline_headings candidates))))"

declare to_heading_def [model_defs] continues_def [model_defs] absorb_def [model_defs]
  clean_heading_def [model_defs] assign_level_def [model_defs] reading_key_def [model_defs]
  heading_candidates_def [model_defs] entry_key_def [model_defs] extract_headings_def [model_defs]
  merge_multiline_headings_def [model_defs] absorb_loop.simps [model_defs] mmh_loop.simps [model_defs]

section \<open>The merge loop and its recursive form\<close>

declare absorb_loop.simps [simp del] mmh_loop.simps [simp del]

lemma absorb_loop_chain:
  "\<exists>j'. j \<le> j' \<and> j' \<le> max j (length hs) \<and>
     absorb_loop hs j ml skip = (fst (chain ml (drop j hs)), skip \<union> {j..<j'}) \<and>
     snd (chain ml (drop j hs)) = drop j' hs"
proof (induction hs j ml skip rule: absorb_loop.induct)
  case (1 hs j ml skip)
  show ?case
  proof (cases "j < length hs")
    case False
    then show ?thesis by (intro exI [of _ j]) (simp add: absorb_loop.simps)
  next
    case True
    then have d: "drop j hs = hs ! j # drop (Suc j) hs" by (rule Cons_nth_drop_Suc [symmetric])
    show ?thesis
    proof (cases "continues ml (hs ! j)")
      case c: True
      with True "1.IH" obtain j' where j': "Suc j \<le> j'" "j' \<le> max (Suc j) (length hs)"
        "absorb_loop hs (Suc j) (absorb ml (hs ! j)) (insert j skip) =
           (fst (chain (absorb ml (hs ! j)) (drop (Suc j) hs)), insert j skip \<union> {Suc j..<j'})"
        "snd (chain (absorb ml (hs ! j)) (drop (Suc j) hs)) = drop j' hs"
        by blast
      have "insert j skip \<union> {Suc j..<j'} = skip \<union> {j..<j'}" using j'(1) by auto
      with j' True c d show ?thesis
        by (intro exI [of _ j']) (auto simp: absorb_loop.simps [of hs j])
    next
      case False
      with True d show ?thesis
        by (intro exI [of _ j]) (simp add: absorb_loop.simps [of hs j])
    qed
  qed
qed

lemma mmh_loop_skip:
  assumes "i \<le> j" "j \<le> length hs" "{i..<j} \<subseteq> S"
  shows "mmh_loop hs i S m = mmh_loop hs j S m"
  using assms(1)
proof (induction i rule: inc_induct)
  case base
  then show ?case by simp
next
  case (step n)
  with assms(2,3) have "n < length hs" "n \<in> S" by auto
  with step.IH show ?case by (simp add: mmh_loop.simps [of hs n])
qed

lemma mmh_loop_merge_runs:
  "\<forall>k \<in> S. k < i \<Longrightarrow> mmh_loop hs i S m = m @ merge_runs (drop i hs)"
proof (induction "length hs - i" arbitrary: i S m rule: less_induct)
  case less
  show ?case
  proof (cases "i < length hs")
    case False
    then show ?thesis by (simp add: mmh_loop.simps [of hs i])
  next
    case True
    with less.prems have i: "i \<notin> S" by blast
    obtain j' where j': "Suc i \<le> j'" "j' \<le> length hs"
      "absorb_loop hs (Suc i) (hs ! i) S =
         (fst (chain (hs ! i) (drop (Suc i) hs)), S \<union> {Suc i..<j'})"
      "snd (chain (hs ! i) (drop (Suc i) hs)) = drop j' hs"
      using absorb_loop_chain [of "Suc i" hs "hs ! i" S] True by auto
    let ?ml = "fst (chain (hs ! i) (drop (Suc i) hs))"
    let ?S' = "S \<union> {Suc i..<j'}"
    have "mmh_loop hs i S m = mmh_loop hs (Suc i) ?S' (m @ [clean_heading ?ml])"
      using True i j'(3) by (simp add: mmh_loop.simps [of hs i])
    also have "\<dots> = mmh_loop hs j' ?S' (m @ [clean_heading ?ml])"
      using j' by (intro mmh_loop_skip) auto
    also have "\<dots> = (m @ [clean_heading ?ml]) @ merge_runs (drop j' hs)"
      using j' less.prems by (intro less.hyps) auto
    also have "merge_runs (drop i hs) = clean_heading ?ml # merge_runs (drop j' hs)"
    proof -
      have "drop i hs = hs ! i # drop (Suc i) hs" using True by (rule Cons_nth_drop_Suc [symmetric])
      moreover obtain ml where c: "chain (hs ! i) (drop (Suc i) hs) = (ml, drop j' hs)"
        using j'(4) by (metis prod.collapse)
      ultimately show ?thesis by simp
    qed
    ultimately show ?thesis by simp
  qed
qed

lemma mmh_merge_runs: "merge_multiline_headings hs = merge_runs hs"
  using mmh_loop_merge_runs [of "{}" 0 hs "[]"] by (simp add: merge_multiline_headings_def)

text \<open>C5: The index loop of merge_multiline_headings, with its skip set and inner while loop, computes the same list as the recursive merge_runs: each heading absorbs the maximal run of continuations that follows it, and the next unabsorbed heading starts the next run.\<close>

lemma merge_multiline_headings_eq: "merge_multiline_headings hs = merge_runs hs"
  by (rule mmh_merge_runs)

section \<open>Levels, merging order and the outline\<close>

lemma to_heading_fields [simp]:
  "ltext (to_heading l lv) = ltext l" "lsize (to_heading l lv) = lsize l"
  "page (to_heading l lv) = page l" "y0 (to_heading l lv) = y0 l" "x0 (to_heading l lv) = x0 l"
  "level (to_heading l lv) = lv"
  by (simp_all add: to_heading_def)

lemma tag_levels_mem:
  "h \<in> set (tag_levels a b c ls) \<Longrightarrow>
   \<exists>l \<in> set ls. h = to_heading l (level h) \<and> assign_level a b c l = Some (level h)"
  by (induction a b c ls rule: tag_levels.induct) (auto split: option.splits)

lemma tag_levels_complete:
  "l \<in> set ls \<Longrightarrow> assign_level a b c l = Some lv \<Longrightarrow> to_heading l lv \<in> set (tag_levels a b c ls)"
  by (induction ls) (auto split: option.splits)

lemma assign_level_bounds:
  "assign_level a b c l = Some H1 \<Longrightarrow> a \<le> lsize l"
  "assign_level a b c l = Some H3 \<Longrightarrow> lsize l < b"
  by (auto simp: assign_level_def split: if_splits)

text \<open>With the guard of line 108, the percentiles exist and \<^verbatim>\<open>np.percentile\<close> never raises.\<close>

lemma heading_candidates_Inr:
  obtains hs where "heading_candidates lines = Inr hs"
proof -
  let ?c = "filter (\<lambda>l. 5 \<le> length (ltext l)) lines"
  show ?thesis
  proof (cases "?c = []")
    case True
    then show ?thesis using that by (simp add: heading_candidates_def)
  next
    case False
    then show ?thesis using that by (simp add: heading_candidates_def percentile_def Let_def)
  qed
qed

lemma heading_candidates_cases:
  assumes "heading_candidates lines = Inr hs" "h \<in> set hs"
  obtains content s90 s75 s60 l where
    "content = filter (\<lambda>l. 5 \<le> length (ltext l)) lines" "content \<noteq> []"
    "percentile (map lsize content) 90 = Some s90" "percentile (map lsize content) 75 = Some s75"
    "percentile (map lsize content) 60 = Some s60"
    "l \<in> set content" "h = to_heading l (level h)" "assign_level s90 s75 s60 l = Some (level h)"
proof -
  let ?c = "filter (\<lambda>l. 5 \<le> length (ltext l)) lines"
  from assms have ne: "?c \<noteq> []" by (auto simp: heading_candidates_def Let_def)
  then obtain s90 s75 s60 where p: "percentile (map lsize ?c) 90 = Some s90"
    "percentile (map lsize ?c) 75 = Some s75" "percentile (map lsize ?c) 60 = Some s60"
    by (simp add: percentile_def)
  with assms ne have "h \<in> set (tag_levels s90 s75 s60 ?c)"
    by (auto simp: heading_candidates_def Let_def)
  then obtain l where "l \<in> set ?c" "h = to_heading l (level h)" "assign_level s90 s75 s60 l = Some (level h)"
    using tag_levels_mem by blast
  with that ne p show ?thesis by blast
qed

lemma candidates_h1_h3:
  assumes "heading_candidates lines = Inr hs" "h1 \<in> set hs" "h3 \<in> set hs"
    and "level h1 = H1" "level h3 = H3"
  shows "lsize h3 < lsize h1"
proof -
  let ?c = "filter (\<lambda>l. 5 \<le> length (ltext l)) lines"
  obtain s90 s75 s60 l1 where p1: "percentile (map lsize ?c) 90 = Some s90"
      "percentile (map lsize ?c) 75 = Some s75" "?c \<noteq> []"
    and l1: "h1 = to_heading l1 H1" "assign_level s90 s75 s60 l1 = Some H1"
    using heading_candidates_cases [OF assms(1,2)] assms(4) by metis
  obtain t90 t75 t60 l3 where p3: "percentile (map lsize ?c) 90 = Some t90"
      "percentile (map lsize ?c) 75 = Some t75"
    and l3: "h3 = to_heading l3 H3" "assign_level t90 t75 t60 l3 = Some H3"
    using heading_candidates_cases [OF assms(1,3)] assms(5) by metis
  have eq: "t90 = s90" "t75 = s75" using p1 p3 by simp_all
  obtain q75 q90 where "percentile (map lsize ?c) 75 = Some q75" "percentile (map lsize ?c) 90 = Some q90"
    "q75 \<le> q90"
    using percentile_le_percentile [of "map lsize ?c" 75 90] p1(3) by auto
  with p1 have "s75 \<le> s90" by simp
  moreover have "s90 \<le> lsize l1" using l1(2) by (rule assign_level_bounds)
  moreover have "lsize l3 < s75" using l3(2) eq by (simp add: assign_level_bounds)
  ultimately show ?thesis using l1(1) l3(1) by simp
qed

text \<open>C20: The candidates of every document are computed without error, and every candidate tagged H1 is strictly larger in font size than every candidate tagged H3.\<close>

lemma candidates_h1_above_h3:
  "\<exists>hs. heading_candidates lines = Inr hs \<and>
     (\<forall>h1 \<in> set hs. \<forall>h3 \<in> set hs. level h1 = H1 \<longrightarrow> level h3 = H3 \<longrightarrow> lsize h3 < lsize h1)"
proof -
  obtain hs where hs: "heading_candidates lines = Inr hs" by (rule heading_candidates_Inr)
  then show ?thesis using candidates_h1_h3 [OF hs] by blast
qed

text \<open>C21: If some line has a text of at least five characters, the candidates are computed without error and some candidate is tagged H1: a line of the largest size reaches the 90th percentile.\<close>

lemma candidates_have_h1:
  assumes "l \<in> set lines" "5 \<le> length (ltext l)"
  shows "\<exists>hs. heading_candidates lines = Inr hs \<and> (\<exists>h \<in> set hs. level h = H1)"
proof -
  let ?c = "filter (\<lambda>l. 5 \<le> length (ltext l)) lines"
  let ?s = "map lsize ?c"
  have lc: "l \<in> set ?c" using assms by simp
  then have ne: "?c \<noteq> []" by (cases ?c) auto
  obtain s90 where s90: "percentile ?s 90 = Some s90" "s90 \<le> Max (set ?s)"
    using percentile_in_range [of ?s 90] ne by auto
  obtain s75 s60 where p: "percentile ?s 75 = Some s75" "percentile ?s 60 = Some s60"
    using ne by (simp add: percentile_def)
  have fin: "finite (set ?s)" "set ?s \<noteq> {}" using lc by auto
  obtain m where m: "m \<in> set ?c" "lsize m = Max (set ?s)"
    using Max_in [OF fin] by auto
  then have "assign_level s90 s75 s60 m = Some H1" using s90 by (simp add: assign_level_def)
  then have "to_heading m H1 \<in> set (tag_levels s90 s75 s60 ?c)"
    using m(1) by (intro tag_levels_complete)
  moreover have "heading_candidates lines = Inr (sort_key reading_key (tag_levels s90 s75 s60 ?c))"
    using ne s90 p by (simp add: heading_candidates_def Let_def)
  ultimately show ?thesis by force
qed

lemma absorb_fields [simp]:
  "reading_key (absorb ml h) = reading_key ml" "page (absorb ml h) = page ml"
  "level (absorb ml h) = level ml" "lsize (absorb ml h) = lsize ml" "x0 (absorb ml h) = x0 ml"
  by (simp_all add: absorb_def reading_key_def)

lemma clean_heading_fields [simp]:
  "reading_key (clean_heading h) = reading_key h" "page (clean_heading h) = page h"
  "level (clean_heading h) = level h" "ltext (clean_heading h) = clean_line (ltext h)"
  "y0 (clean_heading h) = y0 h"
  by (simp_all add: clean_heading_def reading_key_def)

lemma chain_head:
  "reading_key (fst (chain ml hs)) = reading_key ml \<and> level (fst (chain ml hs)) = level ml \<and>
   page (fst (chain ml hs)) = page ml"
  by (induction ml hs rule: chain.induct) auto

lemma chain_suffix: "\<exists>pre. hs = pre @ snd (chain ml hs)"
proof (induction ml hs rule: chain.induct)
  case (2 ml h hs)
  then show ?case by (cases "continues ml h") (auto intro: exI [of _ "h # _"])
qed simp

lemma merge_runs_from_input:
  "x \<in> set (merge_runs hs) \<Longrightarrow> \<exists>y \<in> set hs. reading_key x = reading_key y \<and> level x = level y"
proof (induction hs arbitrary: x rule: merge_runs.induct)
  case (2 h hs)
  obtain ml rest where c: "chain h hs = (ml, rest)" by (cases "chain h hs")
  obtain pre where "hs = pre @ rest" using chain_suffix [of hs h] c by auto
  show ?case
  proof (cases "x = clean_heading ml")
    case True
    with c chain_head [of h hs] show ?thesis by auto
  next
    case False
    with "2.prems" c have "x \<in> set (merge_runs rest)" by simp
    with "2.IH" c \<open>hs = pre @ rest\<close> show ?thesis by auto
  qed
qed simp

lemma merge_runs_sorted:
  "sorted (map reading_key hs) \<Longrightarrow> sorted (map reading_key (merge_runs hs))"
proof (induction hs rule: merge_runs.induct)
  case (2 h hs)
  obtain ml rest where c: "chain h hs = (ml, rest)" by (cases "chain h hs")
  obtain pre where pre: "hs = pre @ rest" using chain_suffix [of hs h] c by auto
  have "sorted (map reading_key rest)" using "2.prems" pre by (simp add: sorted_append)
  then have "sorted (map reading_key (merge_runs rest))" using "2.IH" c by simp
  moreover have "reading_key ml \<le> reading_key x" if x: "x \<in> set (merge_runs rest)" for x
  proof -
    obtain y where "y \<in> set rest" "reading_key x = reading_key y"
      using merge_runs_from_input [OF x] by blast
    with "2.prems" pre chain_head [of h hs] c show ?thesis by (auto simp: sorted_append)
  qed
  ultimately show ?case using c by simp
qed simp

lemma sorted_reading_key_page:
  "sorted (map reading_key hs) \<Longrightarrow> sorted (map page hs)"
proof (induction hs)
  case (Cons h hs)
  then show ?case by (auto simp: reading_key_def less_eq_prod_def)
qed simp

lemma outline_loop_sound:
  "e \<in> set (outline_loop seen hs) \<Longrightarrow>
   \<exists>h \<in> set hs. e = \<lparr>e_level = level h, e_text = clean_line (ltext h), e_page = page h\<rparr> \<and>
     \<not> is_noisy_heading (clean_line (ltext h))"
  by (induction seen hs rule: outline_loop.induct) (auto simp: Let_def split: if_splits)

lemma outline_loop_Cons_cases:
  "outline_loop seen (h # hs) =
     (if is_noisy_heading (clean_line (ltext h)) \<or> (clean_line (ltext h), page h, level h) \<in> seen
      then outline_loop seen hs
      else \<lparr>e_level = level h, e_text = clean_line (ltext h), e_page = page h\<rparr> #
             outline_loop (insert (clean_line (ltext h), page h, level h) seen) hs)"
  by (simp add: Let_def)

lemma outline_loop_fresh:
  "e \<in> set (outline_loop seen hs) \<Longrightarrow> entry_key e \<notin> seen"
proof (induction hs arbitrary: seen)
  case (Cons h hs)
  let ?k = "(clean_line (ltext h), page h, level h)"
  show ?case
  proof (cases "is_noisy_heading (clean_line (ltext h)) \<or> ?k \<in> seen")
    case True
    with Cons.prems have "e \<in> set (outline_loop seen hs)"
      by (simp only: outline_loop_Cons_cases if_True)
    then show ?thesis by (rule Cons.IH)
  next
    case False
    with Cons.prems have "e = \<lparr>e_level = level h, e_text = clean_line (ltext h), e_page = page h\<rparr> \<or>
        e \<in> set (outline_loop (insert ?k seen) hs)"
      by (simp only: outline_loop_Cons_cases if_False set_ConsD)
    then show ?thesis
    proof
      assume "e = \<lparr>e_level = level h, e_text = clean_line (ltext h), e_page = page h\<rparr>"
      with False show ?thesis by (simp add: entry_key_def)
    next
      assume "e \<in> set (outline_loop (insert ?k seen) hs)"
      from Cons.IH [OF this] show ?thesis by simp
    qed
  qed
qed simp

lemma outline_loop_distinct:
  "distinct (map entry_key (outline_loop seen hs))"
proof (induction hs arbitrary: seen)
  case (Cons h hs)
  let ?k = "(clean_line (ltext h), page h, level h)"
  show ?case
  proof (cases "is_noisy_heading (clean_line (ltext h)) \<or> ?k \<in> seen")
    case True
    with Cons.IH show ?thesis by (simp only: outline_loop_Cons_cases if_True)
  next
    case False
    have "?k \<notin> entry_key ` set (outline_loop (insert ?k seen) hs)"
      by (force dest: outline_loop_fresh)
    with Cons.IH False show ?thesis
      by (simp add: outline_loop_Cons_cases entry_key_def del: outline_loop.simps)
  qed
qed simp

lemma outline_loop_sorted:
  "sorted (map page hs) \<Longrightarrow> sorted (map e_page (outline_loop seen hs))"
proof (induction hs arbitrary: seen)
  case (Cons h hs)
  have ih: "sorted (map e_page (outline_loop s hs))" for s
    using Cons by simp
  have ge: "\<forall>e \<in> set (outline_loop s hs). page h \<le> e_page e" for s
    using outline_loop_sound [of _ s hs] Cons.prems by fastforce
  show ?case
    using ih ge by (simp add: outline_loop_Cons_cases del: outline_loop.simps)
qed simp

lemma sorted_map_take: "sorted (map f xs) \<Longrightarrow> sorted (map f (take n xs))"
  by (metis sorted_wrt_take take_map)

lemma candidates_sorted: "heading_candidates lines = Inr hs \<Longrightarrow> sorted (map reading_key hs)"
  by (auto simp: heading_candidates_def Let_def split: option.splits if_splits)

lemma merged_candidates_sorted:
  "heading_candidates lines = Inr hs \<Longrightarrow> sorted (map page (merge_multiline_headings hs))"
  by (intro sorted_reading_key_page merge_runs_sorted [OF candidates_sorted, unfolded mmh_merge_runs [symmetric]])

lemma extract_headings_cases:
  obtains hs where "heading_candidates lines = Inr hs"
    "extract_headings lines = Inr (take 10 (outline_loop {} (merge_multiline_headings hs)))"
proof -
  obtain hs where "heading_candidates lines = Inr hs" by (rule heading_candidates_Inr)
  with that show ?thesis by (simp add: extract_headings_def)
qed

text \<open>C2: The outline of every document is computed without error and has at most ten entries.\<close>

lemma extract_headings_length: "\<exists>es. extract_headings lines = Inr es \<and> length es \<le> 10"
proof -
  obtain hs where "extract_headings lines = Inr (take 10 (outline_loop {} (merge_multiline_headings hs)))"
    by (rule extract_headings_cases)
  then show ?thesis by simp
qed

text \<open>C3: The outline of every document is computed without error, and no two of its entries share the same (text, page, level).\<close>

lemma extract_headings_distinct: "\<exists>es. extract_headings lines = Inr es \<and> distinct (map entry_key es)"
proof -
  obtain hs where "extract_headings lines = Inr (take 10 (outline_loop {} (merge_multiline_headings hs)))"
    by (rule extract_headings_cases)
  moreover have "distinct (map entry_key (take 10 (outline_loop {} (merge_multiline_headings hs))))"
    unfolding take_map [symmetric] by (intro distinct_take outline_loop_distinct)
  ultimately show ?thesis by blast
qed

text \<open>C10: The outline of every document is computed without error, and its entries are in reading order: their pages never decrease.\<close>

lemma extract_headings_reading_order: "\<exists>es. extract_headings lines = Inr es \<and> sorted (map e_page es)"
proof -
  obtain hs where hs: "heading_candidates lines = Inr hs"
    and e: "extract_headings lines = Inr (take 10 (outline_loop {} (merge_multiline_headings hs)))"
    by (rule extract_headings_cases)
  have "sorted (map e_page (take 10 (outline_loop {} (merge_multiline_headings hs))))"
    by (intro sorted_map_take outline_loop_sorted merged_candidates_sorted [OF hs])
  with e show ?thesis by blast
qed

lemma extract_headings_entry:
  assumes "extract_headings lines = Inr es" "e \<in> set es"
  shows "\<not> is_noisy_heading (e_text e) \<and> clean_line (e_text e) = e_text e \<and>
         (\<exists>l \<in> set lines. 5 \<le> length (ltext l) \<and> page l = e_page e)"
proof -
  obtain hs where hs: "heading_candidates lines = Inr hs"
    and e: "extract_headings lines = Inr (take 10 (outline_loop {} (merge_multiline_headings hs)))"
    by (rule extract_headings_cases)
  from assms e have "e \<in> set (outline_loop {} (merge_multiline_headings hs))"
    by (auto dest: in_set_takeD)
  then obtain h where h: "h \<in> set (merge_runs hs)"
    "e = \<lparr>e_level = level h, e_text = clean_line (ltext h), e_page = page h\<rparr>"
    "\<not> is_noisy_heading (clean_line (ltext h))"
    using outline_loop_sound by (fastforce simp: mmh_merge_runs)
  obtain c where c: "c \<in> set hs" "reading_key h = reading_key c"
    using merge_runs_from_input [OF h(1)] by blast
  obtain l where l: "l \<in> set lines" "5 \<le> length (ltext l)" "c = to_heading l (level c)"
    using heading_candidates_cases [OF hs c(1)] by (metis mem_Collect_eq set_filter)
  have "page l = e_page e" using c(2) l(3) h(2) by (metis prod.inject reading_key_def entry.select_convs(3) to_heading_fields(3))
  with h l show ?thesis by auto
qed

text \<open>C11: The outline of every document is computed without error, and every entry has a text that is not noise and is already normalised (clean_line leaves it unchanged), and it starts at a line of the document of at least five characters on the same page.\<close>

lemma extract_headings_sound:
  "\<exists>es. extract_headings lines = Inr es \<and>
     (\<forall>e \<in> set es. \<not> is_noisy_heading (e_text e) \<and> clean_line (e_text e) = e_text e \<and>
        (\<exists>l \<in> set lines. 5 \<le> length (ltext l) \<and> page l = e_page e))"
proof -
  obtain hs where "extract_headings lines = Inr (take 10 (outline_loop {} (merge_multiline_headings hs)))"
    by (rule extract_headings_cases)
  with extract_headings_entry show ?thesis by blast
qed

lemma remdups_snoc: "remdups (zs @ [k]) = remdups (filter (\<lambda>y. y \<noteq> k) zs) @ [k]"
  by (induction zs) auto

lemma remdups_first_Cons:
  "rev (remdups (rev (k # ys))) = k # rev (remdups (rev (filter (\<lambda>y. y \<noteq> k) ys)))"
  by (simp add: remdups_snoc rev_filter)

definition heading_key :: "heading \<Rightarrow> outline_key" where
  "heading_key h = (clean_line (ltext h), page h, level h)"

text \<open>C4: The outline loop with its seen set computes first-occurrence deduplication: the keys it emits are the keys of the non-noisy headings with every repeated (text, page, level) after its first occurrence removed, in reading order.\<close>

lemma outline_loop_first_occurrence:
  "map entry_key (outline_loop seen hs) =
     rev (remdups (rev (filter (\<lambda>k. k \<notin> seen)
       (map heading_key (filter (\<lambda>h. \<not> is_noisy_heading (clean_line (ltext h))) hs)))))"
proof (induction hs arbitrary: seen)
  case (Cons h hs)
  let ?k = "heading_key h"
  show ?case
  proof (cases "is_noisy_heading (clean_line (ltext h)) \<or> ?k \<in> seen")
    case True
    with Cons.IH show ?thesis
      by (auto simp: outline_loop_Cons_cases heading_key_def simp del: outline_loop.simps)
  next
    case False
    let ?ok = "\<lambda>h. \<not> is_noisy_heading (clean_line (ltext h))"
    let ?F = "filter (\<lambda>k. k \<notin> seen) (map heading_key (filter ?ok hs))"
    have "map entry_key (outline_loop seen (h # hs)) = ?k # map entry_key (outline_loop (insert ?k seen) hs)"
      using False by (simp add: outline_loop_Cons_cases entry_key_def heading_key_def del: outline_loop.simps)
    also have "\<dots> = ?k # rev (remdups (rev (filter (\<lambda>k. k \<notin> insert ?k seen) (map heading_key (filter ?ok hs)))))"
      by (simp only: Cons.IH)
    also have "filter (\<lambda>k. k \<notin> insert ?k seen) (map heading_key (filter ?ok hs)) = filter (\<lambda>y. y \<noteq> ?k) ?F"
      by (induction hs) auto
    also have "?k # rev (remdups (rev (filter (\<lambda>y. y \<noteq> ?k) ?F))) = rev (remdups (rev (?k # ?F)))"
      by (simp only: remdups_first_Cons)
    also have "?k # ?F = filter (\<lambda>k. k \<notin> seen) (map heading_key (filter ?ok (h # hs)))"
      using False by simp
    finally show ?thesis .
  qed
qed simp

text \<open>C22: Two candidate headings that pass the continuation test (same page, vertical gap below 15, size difference below 1.2, horizontal offset below 10) are merged into one heading whose text is the normalised concatenation of both texts with a joining space and whose bottom edge is the second's.\<close>

lemma merge_continuation_pair:
  assumes "continues h1 h2"
  shows "merge_multiline_headings [h1, h2] =
           [h1\<lparr>ltext := clean_line (ltext h1 @ [sp] @ ltext h2), y1 := y1 h2\<rparr>]"
  using assms by (simp add: mmh_merge_runs absorb_def clean_heading_def)

lemma merge_separate_pair:
  "\<not> continues h1 h2 \<Longrightarrow> merge_multiline_headings [h1, h2] = [clean_heading h1, clean_heading h2]"
  by (simp add: mmh_merge_runs)

section \<open>Witnesses on test documents\<close>

lemma merge_continuation_pair_witness:
  "continues (to_heading (sample_line ''Continuation of'' 14 100 0) H1)
             (to_heading ((sample_line ''a wrapped heading'' (143 / 10) 124 0)\<lparr>x0 := 54\<rparr>) H1) \<and>
   merge_multiline_headings
     [to_heading (sample_line ''Continuation of'' 14 100 0) H1,
      to_heading ((sample_line ''a wrapped heading'' (143 / 10) 124 0)\<lparr>x0 := 54\<rparr>) H1] =
     [(to_heading (sample_line ''Continuation of'' 14 100 0) H1)\<lparr>
        ltext := clean_line (ltext (to_heading (sample_line ''Continuation of'' 14 100 0) H1) @ [sp] @
                   ltext (to_heading ((sample_line ''a wrapped heading'' (143 / 10) 124 0)\<lparr>x0 := 54\<rparr>) H1)),
        y1 := y1 (to_heading ((sample_line ''a wrapped heading'' (143 / 10) 124 0)\<lparr>x0 := 54\<rparr>) H1)\<rparr>]"
proof -
  have c: "continues (to_heading (sample_line ''Continuation of'' 14 100 0) H1)
             (to_heading ((sample_line ''a wrapped heading'' (143 / 10) 124 0)\<lparr>x0 := 54\<rparr>) H1)"
    by (simp add: model_defs)
  show ?thesis by (rule conjI [OF c merge_continuation_pair [OF c]])
qed

lemma candidates_h1_above_h3_witness:
  "heading_candidates
       [sample_line ''Main title'' 30 10 0, sample_line ''Section heading'' 16 60 0,
        sample_line ''Subsection name'' 12 100 0, sample_line ''body text one'' 10 130 0,
        sample_line ''body text two'' 10 150 0, sample_line ''body text three'' 10 170 0] =
     Inr [to_heading (sample_line ''Main title'' 30 10 0) H1,
          to_heading (sample_line ''Section heading'' 16 60 0) H2,
          to_heading (sample_line ''Subsection name'' 12 100 0) H3] \<and>
   lsize (to_heading (sample_line ''Subsection name'' 12 100 0) H3) <
     lsize (to_heading (sample_line ''Main title'' 30 10 0) H1)"
  (is "heading_candidates ?d = Inr ?hs \<and> _")
proof -
  have c: "heading_candidates ?d = Inr ?hs" by (simp add: model_defs)
  obtain hs where hs: "heading_candidates ?d = Inr hs"
    and p: "\<forall>h1 \<in> set hs. \<forall>h3 \<in> set hs. level h1 = H1 \<longrightarrow> level h3 = H3 \<longrightarrow> lsize h3 < lsize h1"
    using candidates_h1_above_h3 [of ?d] by blast
  from c hs have "hs = ?hs" by simp
  with p have "lsize (to_heading (sample_line ''Subsection name'' 12 100 0) H3) <
     lsize (to_heading (sample_line ''Main title'' 30 10 0) H1)" by simp
  with c show ?thesis by simp
qed

lemma candidates_have_h1_witness:
  "\<exists>hs. heading_candidates [sample_line ''Introduction'' 24 100 0] = Inr hs \<and> (\<exists>h \<in> set hs. level h = H1)"
  by (rule candidates_have_h1 [of "sample_line ''Introduction'' 24 100 0"]) (simp_all add: model_defs)

lemma extract_headings_sound_witness:
  "extract_headings [sample_line ''Introduction'' 24 100 0] = Inr [\<lparr>e_level = H1, e_text = ustr ''Introduction'', e_page = 0\<rparr>] \<and>
   \<not> is_noisy_heading (ustr ''Introduction'') \<and> clean_line (ustr ''Introduction'') = ustr ''Introduction'' \<and>
   (\<exists>l \<in> set [sample_line ''Introduction'' 24 100 0]. 5 \<le> length (ltext l) \<and> page l = 0)"
proof -
  have e: "extract_headings [sample_line ''Introduction'' 24 100 0] =
             Inr [\<lparr>e_level = H1, e_text = ustr ''Introduction'', e_page = 0\<rparr>]"
    by (simp add: model_defs)
  obtain es where "extract_headings [sample_line ''Introduction'' 24 100 0] = Inr es"
    and p: "\<forall>e \<in> set es. \<not> is_noisy_heading (e_text e) \<and> clean_line (e_text e) = e_text e \<and>
        (\<exists>l \<in> set [sample_line ''Introduction'' 24 100 0]. 5 \<le> length (ltext l) \<and> page l = e_page e)"
    using extract_headings_sound [of "[sample_line ''Introduction'' 24 100 0]"] by blast
  with e have "es = [\<lparr>e_level = H1, e_text = ustr ''Introduction'', e_page = 0\<rparr>]" by simp
  with p e show ?thesis by simp
qed

end
