(* ===== verification/Title.thy ===== *)
theory Title
  imports Grouper
begin

text \<open>
  The Title Assembler, \<^verbatim>\<open>merge_multiline_title\<close> of \<^verbatim>\<open>src/main.py\<close> (lines
  64--72): the lines of page 0 whose top edge is above 120 (the banner region),
  sorted stably by that edge; if there is none the title is empty; otherwise the
  banner lines within 1.5 of the largest banner size are cleaned, joined with
  single spaces, whitespace-collapsed and stripped. The lemmas show that only page 0
  matters, that a document without banner lines has the empty title, and that the
  title is always a normalised text (a fixpoint of \<open>clean_line\<close>), and that the
  title does not depend on the order of the input lines when the banner lines have
  distinct top edges (the stable sort by y0 fixes their order).
  The title is \<open>py_error + ustring\<close>: \<^verbatim>\<open>max()\<close> of line 69 (\<open>py_max\<close>)
  raises ValueError on an empty sequence, which the guard of line 67 rules out;
  \<open>merge_multiline_title_Inr\<close> shows that the title is always computed.
\<close>

definition banner_lines :: "line list \<Rightarrow> line list" where
  "banner_lines lines =
     (let first_page = filter (\<lambda>l. page l = 0) lines
      in sort_key y0 (filter (\<lambda>l. y0 l < 120) first_page))"

definition merge_multiline_title :: "line list \<Rightarrow> py_error + ustring" where
  "merge_multiline_title lines =
     (let top_lines = banner_lines lines in
      if top_lines = [] then Inr []
      else case py_max (map lsize top_lines) of
             None \<Rightarrow> Inl ValueError
           | Some max_font \<Rightarrow>
               let title_lines = filter (\<lambda>l. \<bar>lsize l - max_font\<bar> < 1.5) top_lines;
                   merged = py_join [sp] (map (\<lambda>l. clean_line (ltext l)) title_lines)
               in Inr (strip (collapse_ws merged)))"

declare banner_lines_def [model_defs] merge_multiline_title_def [model_defs]

section \<open>Properties of the title\<close>

lemma banner_lines_page0: "banner_lines (filter (\<lambda>l. page l = 0) lines) = banner_lines lines"
  by (simp add: banner_lines_def)

text \<open>With banner lines present, \<^verbatim>\<open>max\<close> does not raise and the title is the joined text.\<close>

lemma title_Inr:
  assumes "banner_lines lines \<noteq> []"
  shows "merge_multiline_title lines =
           Inr (strip (collapse_ws (py_join [sp] (map (\<lambda>l. clean_line (ltext l))
             (filter (\<lambda>l. \<bar>lsize l - Max (set (map lsize (banner_lines lines)))\<bar> < 1.5) (banner_lines lines))))))"
proof -
  have "py_max (map lsize (banner_lines lines)) = Some (Max (set (map lsize (banner_lines lines))))"
    using assms by (simp add: py_max_Max)
  with assms show ?thesis by (simp add: merge_multiline_title_def Let_def)
qed

lemma merge_multiline_title_Inr:
  obtains t where "merge_multiline_title lines = Inr t"
proof (cases "banner_lines lines = []")
  case True
  then show ?thesis using that by (simp add: merge_multiline_title_def)
next
  case False
  then show ?thesis using that title_Inr [OF False] by blast
qed

text \<open>The title depends only on the lines of the first page: removing every line of the other pages does not change it.\<close>

lemma title_first_page_only:
  "merge_multiline_title (filter (\<lambda>l. page l = 0) lines) = merge_multiline_title lines"
  by (simp add: merge_multiline_title_def banner_lines_page0)

text \<open>C31: A document with no line of page 0 above the 120-unit banner threshold has the empty title.\<close>

lemma title_empty_without_banner:
  assumes "\<forall>l \<in> set lines. page l = 0 \<longrightarrow> 120 \<le> y0 l"
  shows "merge_multiline_title lines = Inr []"
proof -
  from assms have "filter (\<lambda>l. y0 l < 120) (filter (\<lambda>l. page l = 0) lines) = []"
    by (auto simp: filter_empty_conv)
  then show ?thesis by (simp add: merge_multiline_title_def banner_lines_def)
qed

text \<open>C13: The title is always a normalised text: clean_line leaves it unchanged (no stuttered letters, single spaces only, no leading or trailing whitespace).\<close>

lemma title_normalised: "\<exists>t. merge_multiline_title lines = Inr t \<and> clean_line t = t"
proof (cases "banner_lines lines = []")
  case True
  then show ?thesis by (simp add: merge_multiline_title_def clean_line_def strip_def strip_by_def)
next
  case False
  let ?m = "py_join [sp] (map (\<lambda>l. clean_line (ltext l))
              (filter (\<lambda>l. \<bar>lsize l - Max (set (map lsize (banner_lines lines)))\<bar> < 1.5) (banner_lines lines)))"
  have "stutter_free ?m"
    by (rule stutter_free_py_join) (auto intro: stutter_free_clean_line)
  then have "stutter_free (strip (collapse_ws ?m)) \<and> ws_normal (strip (collapse_ws ?m)) \<and>
             strip (strip (collapse_ws ?m)) = strip (collapse_ws ?m)"
    by (rule strip_collapse_normal)
  then have "clean_line (strip (collapse_ws ?m)) = strip (collapse_ws ?m)"
    by (blast intro: clean_line_fixpoint)
  with title_Inr [OF False] show ?thesis by blast
qed


lemma banner_lines_mset:
  assumes "mset lines' = mset lines" "distinct (map y0 (filter (\<lambda>l. page l = 0 \<and> y0 l < 120) lines))"
  shows "banner_lines lines' = banner_lines lines"
proof -
  let ?P = "\<lambda>l. page l = 0 \<and> y0 l < 120"
  have "mset (filter ?P lines') = mset (filter ?P lines)" using assms(1) by simp
  then have "sort_key y0 (filter ?P lines) = sort_key y0 (filter ?P lines')"
    using sort_key_mset_distinct [OF _ assms(2)] by (metis (no_types) \<open>mset (filter ?P lines') = mset (filter ?P lines)\<close>)
  moreover have "\<And>ls. filter (\<lambda>l. y0 l < 120) (filter (\<lambda>l. page l = 0) ls) = filter ?P ls"
    by (simp add: conj_commute)
  ultimately show ?thesis by (simp add: banner_lines_def)
qed

text \<open>C9: The title does not depend on the order in which the lines of a document arrive, as long as the banner lines of page 0 have pairwise different top edges (the stable sort by y0 then fixes their order).\<close>

lemma title_order_independent:
  assumes "mset lines' = mset lines" "distinct (map y0 (filter (\<lambda>l. page l = 0 \<and> y0 l < 120) lines))"
  shows "merge_multiline_title lines' = merge_multiline_title lines"
  using banner_lines_mset [OF assms] by (simp add: merge_multiline_title_def)

lemma title_empty_without_banner_witness:
  "merge_multiline_title [sample_line ''Body text'' 10 200 0, sample_line ''Next page'' 30 10 1] = Inr []"
  by (rule title_empty_without_banner) (simp add: sample_line_def)

lemma title_order_independent_witness:
  "merge_multiline_title [sample_line ''Body'' 10 100 0, sample_line ''Report'' 20 80 0, sample_line ''Annual'' 20 50 0] =
   merge_multiline_title [sample_line ''Annual'' 20 50 0, sample_line ''Report'' 20 80 0, sample_line ''Body'' 10 100 0] \<and>
   merge_multiline_title [sample_line ''Annual'' 20 50 0, sample_line ''Report'' 20 80 0, sample_line ''Body'' 10 100 0] = Inr (ustr ''Annual Report'')"
proof
  have m: "mset [sample_line ''Body'' 10 100 0, sample_line ''Report'' 20 80 0, sample_line ''Annual'' 20 50 0] =
           mset [sample_line ''Annual'' 20 50 0, sample_line ''Report'' 20 80 0, sample_line ''Body'' 10 100 0]"
    by (simp add: add_mset_commute)
  have d: "distinct (map y0 (filter (\<lambda>l. page l = 0 \<and> y0 l < 120)
             [sample_line ''Annual'' 20 50 0, sample_line ''Report'' 20 80 0, sample_line ''Body'' 10 100 0]))"
    by (simp add: sample_line_def)
  show "merge_multiline_title [sample_line ''Body'' 10 100 0, sample_line ''Report'' 20 80 0, sample_line ''Annual'' 20 50 0] =
        merge_multiline_title [sample_line ''Annual'' 20 50 0, sample_line ''Report'' 20 80 0, sample_line ''Body'' 10 100 0]"
    using m d by (rule title_order_independent)
  show "merge_multiline_title [sample_line ''Annual'' 20 50 0, sample_line ''Report'' 20 80 0, sample_line ''Body'' 10 100 0] = Inr (ustr ''Annual Report'')"
    by (simp add: model_defs)
qed

end
