(* ===== verification/FormDetector.thy ===== *)
theory FormDetector
  imports Grouper
begin

text \<open>
  The Form Detector, \<^verbatim>\<open>is_form_pdf\<close> of \<^verbatim>\<open>src/main.py\<close> (lines 74--79): on
  page 0, the short lines (fewer than 30 characters) must be more than half of all
  lines, and more than two lines must contain, after lower-casing, one of ten
  field words as a substring. The lemmas show that only page 0 matters and that a
  page without three field-label lines is never a form.
\<close>

definition field_words :: "ustring list" where
  "field_words = map ustr [''name'', ''date'', ''form'', ''designation'', ''service'', ''advance'',
     ''book'', ''block'', ''relationship'', ''fare'']"

definition is_field_label :: "line \<Rightarrow> bool" where
  "is_field_label l \<longleftrightarrow> list_ex (\<lambda>w. has_infix w (lower (ltext l))) field_words"

definition is_form_pdf :: "line list \<Rightarrow> bool" where
  "is_form_pdf lines =
     (let first_page = filter (\<lambda>l. page l = 0) lines;
          short_lines = filter (\<lambda>l. length (ltext l) < 30) first_page;
          field_labels = length (filter is_field_label first_page)
      in real (length short_lines) > 0.5 * real (length first_page) \<and> field_labels > 2)"

declare field_words_def [model_defs] is_field_label_def [model_defs] is_form_pdf_def [model_defs]

section \<open>Properties of the form test\<close>

text \<open>The form decision depends only on the lines of the first page.\<close>

lemma form_first_page_only:
  "is_form_pdf (filter (\<lambda>l. page l = 0) lines) = is_form_pdf lines"
  by (simp add: is_form_pdf_def)

text \<open>C29: A document whose first page has at most two lines containing a field word (name, date, form, designation, service, advance, book, block, relationship, fare) is never classified as a form, however short its lines are.\<close>

lemma form_needs_field_labels:
  assumes "length (filter is_field_label (filter (\<lambda>l. page l = 0) lines)) \<le> 2"
  shows "\<not> is_form_pdf lines"
  using assms by (simp add: is_form_pdf_def Let_def)

text \<open>C30: A document in which at most half of the first-page lines are short (fewer than 30 characters) is never a form: the short lines must be strictly more than half of page 0.\<close>

lemma form_needs_short_lines:
  assumes "2 * length (filter (\<lambda>l. length (ltext l) < 30) (filter (\<lambda>l. page l = 0) lines))
             \<le> length (filter (\<lambda>l. page l = 0) lines)"
  shows "\<not> is_form_pdf lines"
proof -
  let ?s = "length (filter (\<lambda>l. length (ltext l) < 30) (filter (\<lambda>l. page l = 0) lines))"
  let ?n = "length (filter (\<lambda>l. page l = 0) lines)"
  from assms have "real (2 * ?s) \<le> real ?n" by (simp only: of_nat_le_iff)
  then have "\<not> real ?s > 0.5 * real ?n" by simp
  then show ?thesis by (simp add: is_form_pdf_def Let_def)
qed

lemma form_needs_field_labels_witness:
  "\<not> is_form_pdf [sample_line ''Name:'' 10 100 0, sample_line ''Total'' 10 120 0]"
  by (rule form_needs_field_labels) (simp add: model_defs)

lemma form_needs_short_lines_witness:
  "\<not> is_form_pdf [sample_line ''Name:'' 10 100 0, sample_line ''This is a long narrative line of text'' 10 120 0]"
  by (rule form_needs_short_lines) (simp add: sample_line_def ustr_def)

lemma form_example:
  "is_form_pdf [sample_line ''Name:'' 10 100 0, sample_line ''Date of birth:'' 10 120 0,
     sample_line ''Designation:'' 10 140 0, sample_line ''Signature'' 10 160 0]"
  by (simp add: model_defs)

end
