(* ===== verification/Processor.thy ===== *)
theory Processor
  imports Headings Title FormDetector
begin

text \<open>
  The Document Processor and the batch driver, \<^verbatim>\<open>process_pdf\<close> and \<^verbatim>\<open>main\<close>
  of \<^verbatim>\<open>src/main.py\<close> (lines 148--178). The text extraction of pdfplumber is a
  parameter (\<open>extractor\<close>): for a path it fails to open the file, fails while
  reading it, or yields the words of each page in page order. The effects the code
  has are an event log (opening and closing the document, writing an output file)
  and the output files as a map from paths to results. An exception is an \<open>Inl\<close>
  value: inside the \<^verbatim>\<open>with\<close> block it still closes the document, and nothing is
  written. \<open>process_doc\<close> (title, form test, outline, computed after the document is
  closed) returns the errors of \<^verbatim>\<open>max()\<close> and \<^verbatim>\<open>np.percentile\<close> as values, so that a
  document that reaches them raises and writes nothing. \<^verbatim>\<open>main\<close> processes the listed \<^verbatim>\<open>.pdf\<close> files in listing order and has no
  handler, so the first failure ends the batch.
\<close>

type_synonym path = ustring

datatype extraction = Open_failed py_error | Read_failed py_error | Extracted "word list list"

type_synonym extractor = "path \<Rightarrow> extraction"

record result =
  title :: ustring
  outline :: "entry list"

datatype event = Open path | Close path | Write path result

record io_state =
  files :: "path \<Rightarrow> result option"
  events :: "event list"

section \<open>Operations\<close>

text \<open>The loop over \<^verbatim>\<open>enumerate(pdf.pages, 1)\<close>: tag each word with its page number and extend \<^verbatim>\<open>all_lines\<close>.\<close>

fun collect_lines :: "int \<Rightarrow> word list list \<Rightarrow> line list option" where
  "collect_lines page_num [] = Some []"
| "collect_lines page_num (words # pages) =
     (case extract_lines 2 (map (\<lambda>w. w\<lparr>wpage_num := page_num\<rparr>) words) of
        None \<Rightarrow> None
      | Some ls \<Rightarrow> map_option (\<lambda>rest. ls @ rest) (collect_lines (page_num + 1) pages))"

text \<open>Lines 157--165, after the document is closed: title, form test, outline.\<close>

definition process_doc :: "line list \<Rightarrow> py_error + result" where
  "process_doc all_lines =
     (case merge_multiline_title all_lines of
        Inl e \<Rightarrow> Inl e
      | Inr t \<Rightarrow>
          if is_form_pdf all_lines then Inr \<lparr>title = t, outline = []\<rparr>
          else (case extract_headings all_lines of
                  Inl e \<Rightarrow> Inl e
                | Inr es \<Rightarrow> Inr \<lparr>title = t, outline = es\<rparr>))"

definition process_pdf :: "extractor \<Rightarrow> path \<Rightarrow> path \<Rightarrow> io_state \<Rightarrow> io_state \<times> (py_error + unit)" where
  "process_pdf reader pdf_path output_path st =
     (case reader pdf_path of
        Open_failed e \<Rightarrow> (st, Inl e)
      | Read_failed e \<Rightarrow> (st\<lparr>events := events st @ [Open pdf_path, Close pdf_path]\<rparr>, Inl e)
      | Extracted pages \<Rightarrow>
          (case collect_lines 1 pages of
             None \<Rightarrow> (st\<lparr>events := events st @ [Open pdf_path, Close pdf_path]\<rparr>, Inl ZeroDivisionError)
           | Some all_lines \<Rightarrow>
               (case process_doc all_lines of
                  Inl e \<Rightarrow> (st\<lparr>events := events st @ [Open pdf_path, Close pdf_path]\<rparr>, Inl e)
                | Inr output \<Rightarrow>
                    (st\<lparr>files := (files st)(output_path \<mapsto> output),
                        events := events st @ [Open pdf_path, Close pdf_path, Write output_path output]\<rparr>,
                     Inr ()))))"

text \<open>Paths: \<^verbatim>\<open>os.path.join\<close> of a directory and a bare file name, and \<^verbatim>\<open>Path.stem\<close>.\<close>

definition input_dir :: path where "input_dir = ustr ''/app/input''"

definition output_dir :: path where "output_dir = ustr ''/app/output''"

definition join_path :: "path \<Rightarrow> path \<Rightarrow> path" where
  "join_path d f = d @ ustr ''/'' @ f"

definition last_dot :: "ustring \<Rightarrow> nat option" where
  "last_dot name =
     (let idxs = filter (\<lambda>i. name ! i = 46) [0..<length name] in
      if idxs = [] then None else Some (last idxs))"

definition stem :: "ustring \<Rightarrow> ustring" where
  "stem name =
     (case last_dot name of
        Some i \<Rightarrow> if 0 < i \<and> i < length name - 1 then take i name else name
      | None \<Rightarrow> name)"

definition ends_with :: "ustring \<Rightarrow> ustring \<Rightarrow> bool" where
  "ends_with suf s \<longleftrightarrow> length suf \<le> length s \<and> drop (length s - length suf) s = suf"

definition is_pdf_name :: "ustring \<Rightarrow> bool" where
  "is_pdf_name f \<longleftrightarrow> ends_with (ustr ''.pdf'') (lower f)"

definition output_name :: "ustring \<Rightarrow> path" where
  "output_name fname = join_path output_dir (stem fname @ ustr ''.json'')"

fun run_batch :: "extractor \<Rightarrow> ustring list \<Rightarrow> io_state \<Rightarrow> io_state \<times> (py_error + unit)" where
  "run_batch reader [] st = (st, Inr ())"
| "run_batch reader (fname # fnames) st =
     (case process_pdf reader (join_path input_dir fname) (output_name fname) st of
        (st', Inl e) \<Rightarrow> (st', Inl e)
      | (st', Inr u) \<Rightarrow> run_batch reader fnames st')"

definition main_batch :: "extractor \<Rightarrow> ustring list \<Rightarrow> io_state \<Rightarrow> io_state \<times> (py_error + unit)" where
  "main_batch reader listing st = run_batch reader (filter is_pdf_name listing) st"

declare collect_lines.simps [model_defs] process_doc_def [model_defs] process_pdf_def [model_defs]
  input_dir_def [model_defs] output_dir_def [model_defs] join_path_def [model_defs]
  last_dot_def [model_defs] stem_def [model_defs] ends_with_def [model_defs]
  is_pdf_name_def [model_defs] output_name_def [model_defs] main_batch_def [model_defs]

section \<open>Lemmas\<close>

lemma collect_lines_total: "\<exists>ls. collect_lines n pages = Some ls"
  by (induction pages arbitrary: n) (auto simp: extract_lines_nonzero)

lemma extract_lines_page:
  assumes "extract_lines y_tol words = Some ls" "l \<in> set ls" "\<forall>w \<in> set words. wpage_num w = n"
  shows "page l = n - 1"
proof -
  obtain gs where gs: "ls = map (\<lambda>(k, ws). build_line k ws) gs" "mset (concat (map snd gs)) = mset words"
    "\<forall>(k, ws) \<in> set gs. ws \<noteq> [] \<and> (\<forall>w \<in> set ws. wpage_num w = fst k \<and> py_round (wtop w / y_tol) = snd k)"
    using extract_lines_partition [OF assms(1)] by blast
  from assms(2) gs(1) obtain k ws where kws: "(k, ws) \<in> set gs" "l = build_line k ws" by auto
  from gs(3) kws(1) have ne: "ws \<noteq> []" and pn: "\<forall>w \<in> set ws. wpage_num w = fst k" by auto
  from ne obtain w where w: "w \<in> set ws" by (meson ex_in_conv set_empty)
  with pn have "wpage_num w = fst k" by blast
  note w = w this ne
  have "w \<in> set (concat (map snd gs))" using kws(1) w(1) by force
  then have "w \<in> set words" using gs(2) by (metis set_mset_mset)
  with assms(3) w kws(2) show ?thesis by (simp add: build_line_fields(2))
qed

lemma collect_lines_page_range:
  assumes "collect_lines n pages = Some ls" "l \<in> set ls"
  shows "n - 1 \<le> page l \<and> page l < n - 1 + int (length pages)"
  using assms
proof (induction pages arbitrary: n ls)
  case Nil
  then show ?case by simp
next
  case (Cons words pages)
  let ?ws = "map (\<lambda>w. w\<lparr>wpage_num := n\<rparr>) words"
  obtain ls1 where ls1: "extract_lines 2 ?ws = Some ls1" by (simp add: extract_lines_nonzero)
  obtain rest where rest: "collect_lines (n + 1) pages = Some rest" using collect_lines_total by blast
  from Cons.prems(1) ls1 rest have ls: "ls = ls1 @ rest" by simp
  show ?case
  proof (cases "l \<in> set ls1")
    case True
    then have "page l = n - 1" by (rule extract_lines_page [OF ls1]) auto
    then show ?thesis by simp
  next
    case False
    with Cons.prems(2) ls have "l \<in> set rest" by simp
    from Cons.IH [OF rest this] show ?thesis by simp
  qed
qed

lemma process_doc_cases:
  obtains t es where "merge_multiline_title all_lines = Inr t" "extract_headings all_lines = Inr es"
    "process_doc all_lines = Inr \<lparr>title = t, outline = (if is_form_pdf all_lines then [] else es)\<rparr>"
proof -
  obtain t where t: "merge_multiline_title all_lines = Inr t" by (rule merge_multiline_title_Inr)
  obtain hs where "heading_candidates all_lines = Inr hs"
    and es: "extract_headings all_lines = Inr (take 10 (outline_loop {} (merge_multiline_headings hs)))"
    by (rule extract_headings_cases)
  with t that show ?thesis by (simp add: process_doc_def)
qed

lemma process_pdf_Extracted:
  assumes "reader pdf_path = Extracted pages"
  obtains all_lines r where "collect_lines 1 pages = Some all_lines" "process_doc all_lines = Inr r"
    "process_pdf reader pdf_path output_path st =
       (st\<lparr>files := (files st)(output_path \<mapsto> r),
           events := events st @ [Open pdf_path, Close pdf_path, Write output_path r]\<rparr>, Inr ())"
proof -
  obtain all_lines where c: "collect_lines 1 pages = Some all_lines" using collect_lines_total by blast
  obtain t es where "process_doc all_lines = Inr \<lparr>title = t, outline = (if is_form_pdf all_lines then [] else es)\<rparr>"
    by (rule process_doc_cases)
  with c assms that show ?thesis by (simp add: process_pdf_def)
qed

lemma process_pdf_failed:
  assumes "reader pdf_path = Open_failed e \<or> reader pdf_path = Read_failed e"
  shows "snd (process_pdf reader pdf_path output_path st) = Inl e"
    and "files (fst (process_pdf reader pdf_path output_path st)) = files st"
  using assms by (auto simp: process_pdf_def)

lemma run_batch_append:
  "run_batch reader (xs @ ys) st =
     (case run_batch reader xs st of (st', Inl e) \<Rightarrow> (st', Inl e) | (st', Inr u) \<Rightarrow> run_batch reader ys st')"
  by (induction xs arbitrary: st) (auto split: prod.split sum.split)

lemma collect_lines_empty_pages: "\<forall>ws \<in> set pages. ws = [] \<Longrightarrow> collect_lines n pages = Some []"
  by (induction pages arbitrary: n) (simp_all add: extract_lines_def group_words_def)

lemma filter_upt_append: "filter P [0..<m + k] = filter P [0..<m] @ filter P [m..<m + k]"
  by (metis le_add1 filter_append upt_add_eq_append zero_le)

lemma last_dot_pdf:
  assumes "n \<noteq> []"
  shows "last_dot (n @ ustr ''.pdf'') = Some (length n)"
proof -
  let ?s = "n @ ustr ''.pdf''"
  let ?P = "\<lambda>i. ?s ! i = 46"
  have len: "length ?s = length n + 4" by (simp add: ustr_def)
  have tail: "[length n..<length n + 4] = [length n, length n + 1, length n + 2, length n + 3]"
    by (simp add: numeral_eq_Suc)
  have "filter ?P [length n..<length n + 4] = [length n]"
    unfolding tail by (simp add: ustr_def nth_append)
  then have "filter ?P [0..<length ?s] = filter ?P [0..<length n] @ [length n]"
    unfolding len filter_upt_append by simp
  then show ?thesis by (simp add: last_dot_def Let_def)
qed
lemma process_pdf_keeps_files:
  "k \<in> dom (files st) \<Longrightarrow> k \<in> dom (files (fst (process_pdf reader pdf_path output_path st)))"
  by (auto simp: process_pdf_def split: extraction.split option.split sum.split)

lemma run_batch_keeps_files:
  "k \<in> dom (files st) \<Longrightarrow> k \<in> dom (files (fst (run_batch reader fnames st)))"
proof (induction fnames arbitrary: st)
  case (Cons f fs)
  obtain st1 r where p: "process_pdf reader (join_path input_dir f) (output_name f) st = (st1, r)" by force
  have "k \<in> dom (files st1)"
    using process_pdf_keeps_files [OF Cons.prems, of reader "join_path input_dir f" "output_name f"] p by simp
  then show ?case using Cons.IH p by (cases r) auto
qed simp

section \<open>Properties\<close>

text \<open>C14: When the extraction yields the pages, processing never raises: the lines of all pages are collected, the title and the outline are computed without error (the guards of lines 67 and 108 keep max() and np.percentile away from empty input), and the result is written to the output path after the document is opened and closed.\<close>

lemma process_pdf_success:
  assumes "reader pdf_path = Extracted pages"
  shows "\<exists>all_lines r. collect_lines 1 pages = Some all_lines \<and> process_doc all_lines = Inr r \<and>
           process_pdf reader pdf_path output_path st =
             (st\<lparr>files := (files st)(output_path \<mapsto> r),
                 events := events st @ [Open pdf_path, Close pdf_path, Write output_path r]\<rparr>, Inr ())"
proof -
  obtain all_lines r where "collect_lines 1 pages = Some all_lines" "process_doc all_lines = Inr r"
    "process_pdf reader pdf_path output_path st =
       (st\<lparr>files := (files st)(output_path \<mapsto> r),
           events := events st @ [Open pdf_path, Close pdf_path, Write output_path r]\<rparr>, Inr ())"
    using assms by (rule process_pdf_Extracted)
  then show ?thesis by blast
qed

text \<open>C6: When processing raises, no output file is written, nothing is written to the log but the opening and closing of the document, and a document that was opened is closed again.\<close>

lemma process_pdf_error:
  assumes "snd (process_pdf reader pdf_path output_path st) = Inl e"
  shows "files (fst (process_pdf reader pdf_path output_path st)) = files st \<and>
         (\<exists>ev. events (fst (process_pdf reader pdf_path output_path st)) = events st @ ev \<and>
            count_list ev (Open pdf_path) = count_list ev (Close pdf_path) \<and> (\<forall>q r. Write q r \<notin> set ev))"
proof (cases "reader pdf_path")
  case (Extracted pages)
  then obtain all_lines r where "process_pdf reader pdf_path output_path st =
       (st\<lparr>files := (files st)(output_path \<mapsto> r),
           events := events st @ [Open pdf_path, Close pdf_path, Write output_path r]\<rparr>, Inr ())"
    by (rule process_pdf_Extracted)
  with assms show ?thesis by simp
qed (use assms in \<open>auto simp: process_pdf_def\<close>)

text \<open>C19: Every line collected from a document carries a 0-indexed page number inside the document: at least 0 and below the number of pages.\<close>

lemma collect_lines_pages:
  assumes "collect_lines 1 pages = Some all_lines" "l \<in> set all_lines"
  shows "0 \<le> page l \<and> page l < int (length pages)"
  using collect_lines_page_range [OF assms] by simp

text \<open>C32: A document whose pages have no words is not an error: processing writes the empty result, title '' and an empty outline (the guards of lines 67 and 108 return before max() and np.percentile see the empty input).\<close>

lemma empty_document:
  assumes "reader pdf_path = Extracted pages" "\<forall>ws \<in> set pages. ws = []"
  shows "files (fst (process_pdf reader pdf_path output_path st)) output_path = Some \<lparr>title = [], outline = []\<rparr>"
  using assms collect_lines_empty_pages [OF assms(2), of 1]
  by (simp add: process_pdf_def process_doc_def merge_multiline_title_def banner_lines_def
      is_form_pdf_def extract_headings_def heading_candidates_def merge_multiline_headings_def mmh_loop.simps)

text \<open>C7: The batch has no per-document error handling: when a listed document fails to be read after the documents before it were processed, the batch stops with that error, and none of the documents after it is processed.\<close>

lemma batch_stops_at_failure:
  assumes "snd (run_batch reader done st) = Inr ()"
    and "reader (join_path input_dir fname) = Read_failed e"
  shows "run_batch reader (done @ fname # rest) st =
           (let st1 = fst (run_batch reader done st) in
            (st1\<lparr>events := events st1 @ [Open (join_path input_dir fname), Close (join_path input_dir fname)]\<rparr>, Inl e))"
  using assms by (auto simp: run_batch_append process_pdf_def Let_def split: prod.split)

text \<open>C15: When every listed document is extracted, the batch finishes without error and writes an output file for each of them.\<close>

lemma batch_writes_all:
  assumes "\<forall>f \<in> set fnames. \<exists>pages. reader (join_path input_dir f) = Extracted pages"
  shows "snd (run_batch reader fnames st) = Inr () \<and>
         (\<forall>f \<in> set fnames. output_name f \<in> dom (files (fst (run_batch reader fnames st))))"
  using assms
proof (induction fnames arbitrary: st)
  case Nil
  then show ?case by simp
next
  case (Cons f fs)
  then obtain pages where "reader (join_path input_dir f) = Extracted pages" by auto
  then obtain all_lines r where p: "process_pdf reader (join_path input_dir f) (output_name f) st =
       (st\<lparr>files := (files st)(output_name f \<mapsto> r),
           events := events st @ [Open (join_path input_dir f), Close (join_path input_dir f),
                                  Write (output_name f) r]\<rparr>, Inr ())"
    by (rule process_pdf_Extracted)
  let ?st' = "st\<lparr>files := (files st)(output_name f \<mapsto> r),
           events := events st @ [Open (join_path input_dir f), Close (join_path input_dir f),
                                  Write (output_name f) r]\<rparr>"
  have ih: "snd (run_batch reader fs ?st') = Inr () \<and>
            (\<forall>g \<in> set fs. output_name g \<in> dom (files (fst (run_batch reader fs ?st'))))"
    using Cons by simp
  have "output_name f \<in> dom (files (fst (run_batch reader fs ?st')))"
    by (rule run_batch_keeps_files) simp
  with ih p show ?case by simp
qed

text \<open>C33: The output file of a listed document named n.pdf, for a non-empty n, is n.json in the output directory (Path.stem drops the last suffix only).\<close>

lemma output_name_pdf:
  assumes "n \<noteq> []"
  shows "output_name (n @ ustr ''.pdf'') = join_path output_dir (n @ ustr ''.json'')"
  using last_dot_pdf [OF assms] assms by (simp add: output_name_def stem_def ustr_def)

text \<open>C34: Two listed documents whose names differ only in the case of the extension have the same output file, and the batch keeps only the result of the later one.\<close>

lemma batch_output_collision:
  assumes "output_name a = output_name b"
    and "reader (join_path input_dir a) = Extracted pa" "reader (join_path input_dir b) = Extracted pb"
  shows "\<exists>lb r. collect_lines 1 pb = Some lb \<and> process_doc lb = Inr r \<and>
           files (fst (run_batch reader [a, b] st)) (output_name a) = Some r"
proof -
  obtain st1 where "process_pdf reader (join_path input_dir a) (output_name a) st = (st1, Inr ())"
    using assms(2) by (rule process_pdf_Extracted) auto
  moreover obtain lb r where "collect_lines 1 pb = Some lb" "process_doc lb = Inr r"
    "process_pdf reader (join_path input_dir b) (output_name b) st1 =
       (st1\<lparr>files := (files st1)(output_name b \<mapsto> r),
           events := events st1 @ [Open (join_path input_dir b), Close (join_path input_dir b),
                                   Write (output_name b) r]\<rparr>, Inr ())"
    using assms(3) by (rule process_pdf_Extracted)
  ultimately show ?thesis using assms(1) by auto
qed

section \<open>Witnesses\<close>

lemma process_pdf_success_witness:
  "\<exists>all_lines r. collect_lines 1 [] = Some all_lines \<and> process_doc all_lines = Inr r \<and>
     process_pdf (\<lambda>p. Extracted []) (ustr ''in.pdf'') (ustr ''out.json'') \<lparr>files = Map.empty, events = []\<rparr> =
       (\<lparr>files = Map.empty, events = []\<rparr>\<lparr>files := (Map.empty)(ustr ''out.json'' \<mapsto> r),
           events := [] @ [Open (ustr ''in.pdf''), Close (ustr ''in.pdf''), Write (ustr ''out.json'') r]\<rparr>, Inr ())"
  using process_pdf_success [where reader = "\<lambda>p. Extracted []" and pdf_path = "ustr ''in.pdf''" and pages = "[]"
      and output_path = "ustr ''out.json''" and st = "\<lparr>files = Map.empty, events = []\<rparr>"]
  by simp

lemma process_pdf_error_witness:
  "files (fst (process_pdf (\<lambda>p. Read_failed ZeroDivisionError) (ustr ''in.pdf'') (ustr ''out.json'') \<lparr>files = Map.empty, events = []\<rparr>)) = Map.empty \<and>
   (\<exists>ev. events (fst (process_pdf (\<lambda>p. Read_failed ZeroDivisionError) (ustr ''in.pdf'') (ustr ''out.json'') \<lparr>files = Map.empty, events = []\<rparr>)) = [] @ ev \<and>
      count_list ev (Open (ustr ''in.pdf'')) = count_list ev (Close (ustr ''in.pdf'')) \<and> (\<forall>q r. Write q r \<notin> set ev))"
  using process_pdf_error [where reader = "\<lambda>p. Read_failed ZeroDivisionError" and pdf_path = "ustr ''in.pdf''"
      and output_path = "ustr ''out.json''" and st = "\<lparr>files = Map.empty, events = []\<rparr>" and e = ZeroDivisionError]
  by (simp add: process_pdf_def)

lemma collect_lines_pages_witness:
  "0 \<le> page (build_line (1, 20) [\<lparr>wtext = ustr ''Intro'', wfontname = ustr ''F'', wsize = 12, wx0 = 10, wx1 = 40, wtop = 40, wbottom = 52, wpage_num = 1\<rparr>]) \<and>
   page (build_line (1, 20) [\<lparr>wtext = ustr ''Intro'', wfontname = ustr ''F'', wsize = 12, wx0 = 10, wx1 = 40, wtop = 40, wbottom = 52, wpage_num = 1\<rparr>]) < int (length [[\<lparr>wtext = ustr ''Intro'', wfontname = ustr ''F'', wsize = 12, wx0 = 10, wx1 = 40, wtop = 40, wbottom = 52, wpage_num = 7\<rparr>]])"
proof (rule collect_lines_pages)
  show "collect_lines 1 [[\<lparr>wtext = ustr ''Intro'', wfontname = ustr ''F'', wsize = 12, wx0 = 10, wx1 = 40, wtop = 40, wbottom = 52, wpage_num = 7\<rparr>]] =
        Some [build_line (1, 20) [\<lparr>wtext = ustr ''Intro'', wfontname = ustr ''F'', wsize = 12, wx0 = 10, wx1 = 40, wtop = 40, wbottom = 52, wpage_num = 1\<rparr>]]"
    by (simp add: extract_lines_nonzero group_words_def word_key_def py_round_def)
qed simp

lemma empty_document_witness:
  "files (fst (process_pdf (\<lambda>p. Extracted [[], []]) (ustr ''in.pdf'') (ustr ''out.json'') \<lparr>files = Map.empty, events = []\<rparr>)) (ustr ''out.json'') =
     Some \<lparr>title = [], outline = []\<rparr>"
  using empty_document [where reader = "\<lambda>p. Extracted [[], []]" and pdf_path = "ustr ''in.pdf''" and pages = "[[], []]"
      and output_path = "ustr ''out.json''" and st = "\<lparr>files = Map.empty, events = []\<rparr>"]
  by simp

lemma batch_stops_at_failure_witness:
  "run_batch (\<lambda>p. Read_failed (ExtractionFailure (ustr ''bad''))) ([] @ ustr ''a.pdf'' # [ustr ''b.pdf'']) \<lparr>files = Map.empty, events = []\<rparr> =
     (let st1 = fst (run_batch (\<lambda>p. Read_failed (ExtractionFailure (ustr ''bad''))) [] \<lparr>files = Map.empty, events = []\<rparr>) in
      (st1\<lparr>events := events st1 @ [Open (join_path input_dir (ustr ''a.pdf'')), Close (join_path input_dir (ustr ''a.pdf''))]\<rparr>,
       Inl (ExtractionFailure (ustr ''bad''))))"
  by (rule batch_stops_at_failure) simp_all

lemma batch_writes_all_witness:
  "snd (run_batch (\<lambda>p. Extracted []) [ustr ''a.pdf'', ustr ''b.pdf''] \<lparr>files = Map.empty, events = []\<rparr>) = Inr () \<and>
   output_name (ustr ''a.pdf'') \<in> dom (files (fst (run_batch (\<lambda>p. Extracted []) [ustr ''a.pdf'', ustr ''b.pdf''] \<lparr>files = Map.empty, events = []\<rparr>))) \<and>
   output_name (ustr ''b.pdf'') \<in> dom (files (fst (run_batch (\<lambda>p. Extracted []) [ustr ''a.pdf'', ustr ''b.pdf''] \<lparr>files = Map.empty, events = []\<rparr>)))"
  using batch_writes_all [where reader = "\<lambda>p. Extracted []" and fnames = "[ustr ''a.pdf'', ustr ''b.pdf'']"
      and st = "\<lparr>files = Map.empty, events = []\<rparr>"]
  by simp

lemma output_name_pdf_witness:
  "output_name (ustr ''report'' @ ustr ''.pdf'') = join_path output_dir (ustr ''report'' @ ustr ''.json'')"
  by (rule output_name_pdf) (simp add: ustr_def)

lemma batch_output_collision_witness:
  "\<exists>lb r. collect_lines 1 [] = Some lb \<and> process_doc lb = Inr r \<and>
     files (fst (run_batch (\<lambda>p. Extracted []) [ustr ''report.pdf'', ustr ''report.PDF''] \<lparr>files = Map.empty, events = []\<rparr>)) (output_name (ustr ''report.pdf'')) =
       Some r"
  by (rule batch_output_collision) (simp_all add: output_name_def stem_def last_dot_def ustr_def join_path_def)

lemma output_name_case_collision:
  "is_pdf_name (ustr ''report.pdf'') \<and> is_pdf_name (ustr ''report.PDF'') \<and>
   output_name (ustr ''report.pdf'') = output_name (ustr ''report.PDF'')"
  by (simp add: model_defs)

end
