(* ===== verification/Spec2Isabelle.thy ===== *)
theory Spec2Isabelle
  imports Processor
begin

text \<open>
  \<^bold>\<open>A verification development of the PDF outline extractor (src/main.py).\<close>

  \<^bold>\<open>The program.\<close> \<^verbatim>\<open>main\<close> lists \<^verbatim>\<open>/app/input\<close>, keeps the names ending in
  \<^verbatim>\<open>.pdf\<close> (case-insensitively) and calls \<^verbatim>\<open>process_pdf\<close> on each, in listing order.
  \<^verbatim>\<open>process_pdf\<close> opens the document with pdfplumber, extracts the words of every page,
  tags them with the 1-based page number and groups them into lines
  (\<^verbatim>\<open>extract_lines\<close>, which normalises each line with \<^verbatim>\<open>clean_line\<close>). From all lines
  it computes the title (\<^verbatim>\<open>merge_multiline_title\<close>), decides whether the document is a
  form (\<^verbatim>\<open>is_form_pdf\<close>) and, unless it is, the outline (\<^verbatim>\<open>extract_headings\<close>: size
  percentiles, H1/H2/H3 levels, reading order, \<^verbatim>\<open>merge_multiline_headings\<close>, noise
  filter \<^verbatim>\<open>is_noisy_heading\<close>, dedupe, first ten entries), and writes both as JSON.

  \<^bold>\<open>Theories and what they model.\<close>
  \<^item> \<open>Prelude\<close>: strings as lists of code points (\<open>ustring\<close>), the character classes of
    the regular expressions, and \<^verbatim>\<open>str.strip\<close>, \<^verbatim>\<open>lower\<close>, \<^verbatim>\<open>split\<close>, \<^verbatim>\<open>join\<close>,
    \<^verbatim>\<open>in\<close> (\<open>strip_by\<close>, \<open>lower\<close>, \<open>split_ws\<close>, \<open>py_join\<close>, \<open>has_infix\<close>); the
    collections \<open>text_simps\<close> and \<open>model_defs\<close> (every defining equation, so that
    \<open>simp add: model_defs\<close> runs the model on a concrete document).
  \<^item> \<open>Normalizer\<close>: \<^verbatim>\<open>dedupe_chars\<close> and \<^verbatim>\<open>clean_line\<close> (lines 12--18) as
    left-to-right scanners \<open>dedupe_chars\<close>, \<open>collapse_ws\<close>, \<open>clean_line\<close>. Lemmas: a
    run of three or more equal letters becomes one, other characters are untouched,
    whitespace runs become one space, and \<open>clean_line\<close> is idempotent (through the
    normal-form predicates \<open>stutter_free\<close> and \<open>ws_normal\<close>).
  \<^item> \<open>Noise\<close>: \<^verbatim>\<open>is_noisy_heading\<close> (lines 20--30), each regular expression as a
    bool-valued function (\<open>caps_fullmatch\<close>, \<open>noise_search\<close>, \<open>five_digits\<close>), the
    if-chain in code order.
  \<^item> \<open>Grouper\<close>: records \<open>word\<close> (the pdfplumber word dict) and \<open>line\<close>;
    \<^verbatim>\<open>extract_lines\<close> (lines 32--62) as \<open>group_words\<close> (the insertion-ordered
    defaultdict as an association list, \<open>group_add\<close>), \<open>join_words\<close>, \<open>build_line\<close>,
    with Python 3 banker's rounding \<open>py_round\<close>. Lemmas: the lines partition the
    words, one line per (page, rounded top) key, geometric well-formedness.
  \<^item> \<open>Percentile\<close>: \<^verbatim>\<open>np.percentile\<close> (linear method) as \<open>percentile\<close>: monotone in
    the rank and bounded by the data (used for the level thresholds); an empty
    array has no percentile.
  \<^item> \<open>Title\<close>: \<^verbatim>\<open>merge_multiline_title\<close> (lines 64--72): never raises, only page 0
    matters, empty without banner lines, normalised, independent of the input order.
  \<^item> \<open>FormDetector\<close>: \<^verbatim>\<open>is_form_pdf\<close> (lines 74--79).
  \<^item> \<open>Headings\<close>: \<^verbatim>\<open>merge_multiline_headings\<close> (lines 81--103) literally as the index
    loop with its skip set (\<open>mmh_loop\<close>, \<open>absorb_loop\<close>), proved equal to the
    recursive \<open>merge_runs\<close>; \<^verbatim>\<open>extract_headings\<close> (lines 105--146) as
    \<open>heading_candidates\<close>, \<open>outline_loop\<close> (the loop with its \<^verbatim>\<open>seen\<close> set) and
    \<open>extract_headings\<close>. Lemmas: at most ten entries, no duplicate key, reading order,
    first-occurrence dedupe, soundness of every entry, level thresholds.
  \<^item> \<open>Processor\<close>: \<^verbatim>\<open>process_pdf\<close> and \<^verbatim>\<open>main\<close> (lines 148--178) over an explicit
    state \<open>io_state\<close> (output files as a map, an event log of Open/Close/Write) with
    pdfplumber as a parameter \<open>reader\<close> returning \<open>Open_failed\<close>, \<open>Read_failed\<close> or
    the pages' words; exceptions are \<open>Inl\<close> values of \<open>py_error\<close> (declared in
    \<open>Prelude\<close> with \<open>py_max\<close>, the builtin \<^verbatim>\<open>max\<close>): pdfplumber's failures,
    ZeroDivisionError, ValueError of \<^verbatim>\<open>max()\<close> in the title and IndexError of
    \<^verbatim>\<open>np.percentile\<close> in the headings, so that the guards of lines 67 and 108 are
    part of what the lemmas check.
    Lemmas: success writes the result, an error writes nothing and closes what it
    opened, page numbers stay in range, the batch aborts at the first failure,
    output names follow \<^verbatim>\<open>Path.stem\<close> and can collide.
  \<^item> This theory: properties spanning the components: the pages of the written
    outline lie in the document, and the whole pipeline on a one-line document in
    closed form.

  \<^bold>\<open>Bounds and termination.\<close> Every loop of the program runs over a finite list, so
  every definition is total: structural recursion, or \<open>function\<close> with a length
  measure (\<open>split_ws\<close>, \<open>dedupe_chars\<close>, \<open>collapse_ws\<close>, \<open>absorb_loop\<close>,
  \<open>mmh_loop\<close>, \<open>merge_runs\<close>); no fuel is needed. \<open>extract_lines\<close> returns \<open>None\<close>
  only for \<open>y_tol = 0\<close> (the ZeroDivisionError of \<^verbatim>\<open>w['top'] / y_tol\<close>), which the
  program never passes; \<open>collect_lines_total\<close> shows that processing never takes that
  branch.

  \<^bold>\<open>Not modelled.\<close> pdfplumber's text extraction (a parameter), JSON serialisation and
  \<^verbatim>\<open>os.makedirs\<close> (the written value is the result record), floating-point rounding
  (reals are exact), and Unicode case mapping and letter classes beyond ASCII
  (\<^verbatim>\<open>[A-Za-z]\<close> and \<^verbatim>\<open>\d\<close> are modelled on ASCII; \<^verbatim>\<open>\s\<close> covers all of Unicode).
\<close>

definition intro_page :: "word list" where
  "intro_page =
     [\<lparr>wtext = ustr ''Intro'', wfontname = ustr ''Arial-Bold'', wsize = 24, wx0 = 72, wx1 = 130,
       wtop = 100, wbottom = 124, wpage_num = 0\<rparr>,
      \<lparr>wtext = ustr ''duction'', wfontname = ustr ''Arial-Bold'', wsize = 24, wx0 = 131, wx1 = 210,
       wtop = 101, wbottom = 125, wpage_num = 0\<rparr>]"

definition intro_line :: line where
  "intro_line =
     \<lparr>ltext = ustr ''Introduction'', raw_text = ustr ''Introduction'', lsize = 24, font = ustr ''Arial-Bold'',
      is_bold = True, x0 = 72, x1 = 210, y0 = 100, y1 = 125, page = 0\<rparr>"

definition intro_result :: result where
  "intro_result = \<lparr>title = ustr ''Introduction'', outline = [\<lparr>e_level = H1, e_text = ustr ''Introduction'', e_page = 0\<rparr>]\<rparr>"

section \<open>Shared facts\<close>

lemma intro_page_lines: "collect_lines 1 [intro_page] = Some [intro_line]"
proof -
  have "collect_lines 1 [intro_page] = Some [build_line (1, 50) (map (\<lambda>w. w\<lparr>wpage_num := 1\<rparr>) intro_page)]"
    by (simp add: intro_page_def extract_lines_nonzero group_words_def word_key_def py_round_def)
  also have "build_line (1, 50) (map (\<lambda>w. w\<lparr>wpage_num := 1\<rparr>) intro_page) = intro_line"
    by (simp add: intro_page_def intro_line_def build_line_def model_defs Let_def)
  finally show ?thesis .
qed

lemma intro_line_result: "process_doc [intro_line] = Inr intro_result"
  by (simp add: intro_line_def intro_result_def model_defs)

lemma strip_collapse_clean_line: "strip (collapse_ws (clean_line s)) = clean_line s"
proof -
  have n: "ws_normal (clean_line s)" using clean_line_shape by blast
  have "strip (clean_line s) = clean_line s"
    unfolding clean_line_def strip_def
    by (rule strip_by_idem) (auto dest: strip_by_hd strip_by_last)
  with n show ?thesis by (simp add: collapse_ws_ws_normal)
qed

lemma single_line_title:
  "merge_multiline_title [l] = Inr (if page l = 0 \<and> y0 l < 120 then clean_line (ltext l) else [])"
  by (simp add: merge_multiline_title_def banner_lines_def strip_collapse_clean_line)

lemma single_line_not_form: "\<not> is_form_pdf [l]"
  by (simp add: is_form_pdf_def Let_def)

lemma single_line_headings:
  "extract_headings [l] =
     Inr (if 5 \<le> length (ltext l) \<and> \<not> is_noisy_heading (clean_line (ltext l))
          then [\<lparr>e_level = H1, e_text = clean_line (ltext l), e_page = page l\<rparr>] else [])"
proof (cases "5 \<le> length (ltext l)")
  case True
  have p: "percentile [lsize l] q = Some (lsize l)" for q
    by (simp add: percentile_def interp_def)
  have "heading_candidates [l] = Inr [to_heading l H1]"
    using True by (simp add: heading_candidates_def p assign_level_def)
  then show ?thesis
    using True by (simp add: extract_headings_def mmh_merge_runs Let_def)
next
  case False
  then show ?thesis
    by (simp add: extract_headings_def heading_candidates_def merge_multiline_headings_def mmh_loop.simps)
qed

section \<open>Properties spanning the components\<close>

text \<open>C8: Every outline entry that processing writes names a page of the document: its 0-indexed page is at least 0 and below the number of pages pdfplumber returned.\<close>

theorem outline_pages_in_range:
  assumes "reader pdf_path = Extracted pages"
    and "files (fst (process_pdf reader pdf_path output_path st)) output_path = Some r"
    and "e \<in> set (outline r)"
  shows "0 \<le> e_page e \<and> e_page e < int (length pages)"
proof -
  obtain all_lines r' where c: "collect_lines 1 pages = Some all_lines" and d: "process_doc all_lines = Inr r'"
    and p: "process_pdf reader pdf_path output_path st =
       (st\<lparr>files := (files st)(output_path \<mapsto> r'),
           events := events st @ [Open pdf_path, Close pdf_path, Write output_path r']\<rparr>, Inr ())"
    using assms(1) by (rule process_pdf_Extracted)
  obtain t es where es: "extract_headings all_lines = Inr es"
    and d': "process_doc all_lines = Inr \<lparr>title = t, outline = (if is_form_pdf all_lines then [] else es)\<rparr>"
    by (rule process_doc_cases)
  from assms(2) p d d' have "r = \<lparr>title = t, outline = (if is_form_pdf all_lines then [] else es)\<rparr>" by simp
  with assms(3) have "e \<in> set es" by (simp split: if_splits)
  then obtain l where "l \<in> set all_lines" "page l = e_page e"
    using extract_headings_entry [OF es] by blast
  with collect_lines_page_range [OF c] show ?thesis by force
qed

text \<open>C12: The whole pipeline on a document of one line: the title is the cleaned text of the line if it lies in the banner region of page 0 and is empty otherwise; a single line is never a form, and the outline is one H1 entry with the cleaned text on the line's page exactly when the text has at least five characters and is not noise (a single size is its own 90th percentile).\<close>

theorem single_line_document:
  "process_doc [l] =
     Inr \<lparr>title = (if page l = 0 \<and> y0 l < 120 then clean_line (ltext l) else []),
          outline = (if 5 \<le> length (ltext l) \<and> \<not> is_noisy_heading (clean_line (ltext l))
                     then [\<lparr>e_level = H1, e_text = clean_line (ltext l), e_page = page l\<rparr>] else [])\<rparr>"
  by (simp add: process_doc_def single_line_title single_line_not_form single_line_headings)

section \<open>Witnesses\<close>

theorem outline_pages_in_range_witness:
  "0 \<le> e_page \<lparr>e_level = H1, e_text = ustr ''Introduction'', e_page = 0\<rparr> \<and>
   e_page \<lparr>e_level = H1, e_text = ustr ''Introduction'', e_page = 0\<rparr> < int (length [intro_page])"
proof (rule outline_pages_in_range)
  show "(\<lambda>p. Extracted [intro_page]) (ustr ''in.pdf'') = Extracted [intro_page]" by simp
  show "files (fst (process_pdf (\<lambda>p. Extracted [intro_page]) (ustr ''in.pdf'') (ustr ''out.json'')
          \<lparr>files = Map.empty, events = []\<rparr>)) (ustr ''out.json'') = Some intro_result"
    by (simp add: process_pdf_def intro_page_lines intro_line_result del: collect_lines.simps)
  show "\<lparr>e_level = H1, e_text = ustr ''Introduction'', e_page = 0\<rparr> \<in> set (outline intro_result)"
    by (simp add: intro_result_def)
qed

end
